theory Spec2Isabelle
  imports Main "HOL-Library.Word" "HOL-Library.Sublist" "HOL-Library.AList"
begin

section \<open>JavaScript values used by App.tsx\<close>

subsection \<open>Strings\<close>

text \<open>
  A JavaScript string is a sequence of UTF-16 code units. The notes the user types and
  the locale-formatted timestamps are not restricted to ASCII, so the code units are
  kept at their full width. \<open>str\<close> embeds an ASCII literal of the source.
\<close>

type_synonym js_string = "16 word list"

abbreviation chr16 :: "char \<Rightarrow> 16 word" where
  "chr16 c \<equiv> of_char c"

definition str :: "string \<Rightarrow> js_string" where
  "str cs = map of_char cs"

subsection \<open>\<^verbatim>\<open>Date.now().toString()\<close>\<close>

text \<open>
  \<^verbatim>\<open>Date.now()\<close> is an integral number of milliseconds, of magnitude far below
  \<open>10^21\<close>, so \<^verbatim>\<open>Number.prototype.toString\<close> prints it in plain decimal
  notation, with a leading minus sign for a negative value.
\<close>

fun digits10 :: "nat \<Rightarrow> js_string" where
  "digits10 n =
     (if n < 10 then [of_nat (48 + n)]
      else digits10 (n div 10) @ [of_nat (48 + n mod 10)])"

definition Number_toString :: "int \<Rightarrow> js_string" where
  "Number_toString n =
     (if n < 0 then chr16 CHR ''-'' # digits10 (nat (- n)) else digits10 (nat n))"

subsection \<open>The Bookmark interface\<close>

text \<open>
  \<^verbatim>\<open>interface Bookmark { id: string; note: string; app: string; timestamp: string }\<close>.
  The field \<^verbatim>\<open>id\<close> is written \<open>id'\<close>, since \<open>id\<close> is the identity function of HOL.
\<close>

record Bookmark =
  id' :: js_string
  "note" :: js_string
  app :: js_string
  timestamp :: js_string

text \<open>
  The state variable \<^verbatim>\<open>context\<close> holds \<^verbatim>\<open>{app: string; timestamp: string} | null\<close>;
  its fields carry a prime to keep them apart from those of \<open>Bookmark\<close>.
\<close>

record Context =
  app' :: js_string
  timestamp' :: js_string

section \<open>\<^verbatim>\<open>JSON.stringify\<close> on a \<^verbatim>\<open>Bookmark[]\<close>\<close>

text \<open>
  \<^verbatim>\<open>JSON.stringify\<close> is the ECMAScript built-in. On an array of plain objects
  whose properties are strings it writes, without any white space, the elements
  between brackets and separated by commas, each object as its properties in creation
  order, and each string through the abstract operation QuoteJSONString.

  QuoteJSONString walks the string by code points. Seven characters have a
  two-character escape; any other code unit below U+0020 and any surrogate that is
  not part of a well-formed pair is written as a backslash, \<open>u\<close> and four lowercase
  hexadecimal digits; everything else, a well-formed surrogate pair included, is
  copied.
\<close>

definition is_leading_surrogate :: "16 word \<Rightarrow> bool" where
  "is_leading_surrogate c \<longleftrightarrow> 0xD800 \<le> c \<and> c \<le> 0xDBFF"

definition is_trailing_surrogate :: "16 word \<Rightarrow> bool" where
  "is_trailing_surrogate c \<longleftrightarrow> 0xDC00 \<le> c \<and> c \<le> 0xDFFF"

definition hex_digit :: "nat \<Rightarrow> 16 word" where
  "hex_digit d = (if d < 10 then of_nat (48 + d) else of_nat (87 + d))"

definition UnicodeEscape :: "16 word \<Rightarrow> js_string" where
  "UnicodeEscape c =
     [chr16 CHR 0x5C, chr16 CHR ''u'',
      hex_digit (unat c div 4096), hex_digit (unat c div 256 mod 16),
      hex_digit (unat c div 16 mod 16), hex_digit (unat c mod 16)]"

definition quote_unit :: "16 word \<Rightarrow> js_string" where
  "quote_unit c =
     (if c = 0x08 then [chr16 CHR 0x5C, chr16 CHR ''b'']
      else if c = 0x09 then [chr16 CHR 0x5C, chr16 CHR ''t'']
      else if c = 0x0A then [chr16 CHR 0x5C, chr16 CHR ''n'']
      else if c = 0x0C then [chr16 CHR 0x5C, chr16 CHR ''f'']
      else if c = 0x0D then [chr16 CHR 0x5C, chr16 CHR ''r'']
      else if c = 0x22 then [chr16 CHR 0x5C, chr16 CHR 0x22]
      else if c = 0x5C then [chr16 CHR 0x5C, chr16 CHR 0x5C]
      else if c < 0x20 \<or> is_leading_surrogate c \<or> is_trailing_surrogate c
        then UnicodeEscape c
      else [c])"

fun quote_units :: "js_string \<Rightarrow> js_string" where
  "quote_units [] = []"
| "quote_units [c] = quote_unit c"
| "quote_units (c # d # cs) =
     (if is_leading_surrogate c \<and> is_trailing_surrogate d then c # d # quote_units cs
      else quote_unit c @ quote_units (d # cs))"

definition QuoteJSONString :: "js_string \<Rightarrow> js_string" where
  "QuoteJSONString s = chr16 CHR 0x22 # quote_units s @ [chr16 CHR 0x22]"

definition stringify_property :: "string \<Rightarrow> js_string \<Rightarrow> js_string" where
  "stringify_property k v = QuoteJSONString (str k) @ chr16 CHR '':'' # QuoteJSONString v"

definition stringify_Bookmark :: "Bookmark \<Rightarrow> js_string" where
  "stringify_Bookmark b =
     chr16 CHR ''{'' # stringify_property ''id'' (id' b)
     @ chr16 CHR '','' # stringify_property ''note'' (note b)
     @ chr16 CHR '','' # stringify_property ''app'' (app b)
     @ chr16 CHR '','' # stringify_property ''timestamp'' (timestamp b)
     @ [chr16 CHR ''}'']"

fun stringify_elements :: "Bookmark list \<Rightarrow> js_string" where
  "stringify_elements [] = []"
| "stringify_elements [b] = stringify_Bookmark b"
| "stringify_elements (b # bs) = stringify_Bookmark b @ chr16 CHR '','' # stringify_elements bs"

definition JSON_stringify :: "Bookmark list \<Rightarrow> js_string" where
  "JSON_stringify bs = chr16 CHR ''['' # stringify_elements bs @ [chr16 CHR '']'']"

section \<open>\<^verbatim>\<open>JSON.parse\<close>\<close>

text \<open>
  \<^verbatim>\<open>JSON.parse\<close> is the ECMAScript built-in: a parser of the JSON grammar that
  either returns the value the text denotes or throws a \<^verbatim>\<open>SyntaxError\<close>. A number
  is kept as the text of its token (the program never reads one), so no floating
  point arithmetic is involved. An object is the list of its properties in the order
  of their creation (JavaScript lists properties named by an array index first; no
  property of a \<^verbatim>\<open>Bookmark\<close> is).
\<close>

datatype json =
    JNull
  | JBool bool
  | JNumber js_string
  | JString js_string
  | JArray "json list"
  | JObject "(js_string \<times> json) list"

datatype parse_error = SyntaxError | OutOfFuel

definition is_ws :: "16 word \<Rightarrow> bool" where
  "is_ws c \<longleftrightarrow> c = 0x20 \<or> c = 0x09 \<or> c = 0x0A \<or> c = 0x0D"

definition skip_ws :: "js_string \<Rightarrow> js_string" where
  "skip_ws = dropWhile is_ws"

definition is_digit :: "16 word \<Rightarrow> bool" where
  "is_digit c \<longleftrightarrow> 0x30 \<le> c \<and> c \<le> 0x39"

subsection \<open>Strings\<close>

definition hex_value :: "16 word \<Rightarrow> nat option" where
  "hex_value c =
     (if 0x30 \<le> c \<and> c \<le> 0x39 then Some (unat c - 48)
      else if 0x61 \<le> c \<and> c \<le> 0x66 then Some (unat c - 87)
      else if 0x41 \<le> c \<and> c \<le> 0x46 then Some (unat c - 55)
      else None)"

definition parse_hex4 :: "16 word \<Rightarrow> 16 word \<Rightarrow> 16 word \<Rightarrow> 16 word \<Rightarrow> 16 word option" where
  "parse_hex4 h1 h2 h3 h4 =
     (case (hex_value h1, hex_value h2, hex_value h3, hex_value h4) of
        (Some a, Some b, Some c, Some d) \<Rightarrow> Some (of_nat (((a * 16 + b) * 16 + c) * 16 + d))
      | _ \<Rightarrow> None)"

definition unescape :: "16 word \<Rightarrow> 16 word option" where
  "unescape e =
     (if e = chr16 CHR 0x22 then Some 0x22
      else if e = chr16 CHR 0x5C then Some 0x5C
      else if e = chr16 CHR ''/'' then Some 0x2F
      else if e = chr16 CHR ''b'' then Some 0x08
      else if e = chr16 CHR ''f'' then Some 0x0C
      else if e = chr16 CHR ''n'' then Some 0x0A
      else if e = chr16 CHR ''r'' then Some 0x0D
      else if e = chr16 CHR ''t'' then Some 0x09
      else None)"

text \<open>
  The characters of a string after its opening quote, up to and including the closing
  quote: the string denoted and the rest of the input.
\<close>

fun parse_string_chars :: "js_string \<Rightarrow> (js_string \<times> js_string) option" where
  "parse_string_chars [] = None"
| "parse_string_chars (c # cs) =
     (if c = chr16 CHR 0x22 then Some ([], cs)
      else if c = chr16 CHR 0x5C then
        (case cs of
           [] \<Rightarrow> None
         | e # r \<Rightarrow>
             if e = chr16 CHR ''u'' then
               (case r of
                  h1 # h2 # h3 # h4 # r' \<Rightarrow>
                    (case parse_hex4 h1 h2 h3 h4 of
                       None \<Rightarrow> None
                     | Some u \<Rightarrow>
                         (case parse_string_chars r' of
                            None \<Rightarrow> None
                          | Some (s, rest) \<Rightarrow> Some (u # s, rest)))
                | _ \<Rightarrow> None)
             else
               (case unescape e of
                  None \<Rightarrow> None
                | Some u \<Rightarrow>
                    (case parse_string_chars r of
                       None \<Rightarrow> None
                     | Some (s, rest) \<Rightarrow> Some (u # s, rest))))
      else if c < 0x20 then None
      else
        (case parse_string_chars cs of
           None \<Rightarrow> None
         | Some (s, rest) \<Rightarrow> Some (c # s, rest)))"

subsection \<open>Numbers and literals\<close>

definition parse_frac :: "js_string \<Rightarrow> (js_string \<times> js_string) option" where
  "parse_frac r =
     (case r of
        [] \<Rightarrow> Some ([], r)
      | c # cs \<Rightarrow>
          if c = chr16 CHR ''.'' then
            (if takeWhile is_digit cs = [] then None
             else Some (c # takeWhile is_digit cs, dropWhile is_digit cs))
          else Some ([], r))"

definition parse_exp :: "js_string \<Rightarrow> (js_string \<times> js_string) option" where
  "parse_exp r =
     (case r of
        [] \<Rightarrow> Some ([], r)
      | c # cs \<Rightarrow>
          if c = chr16 CHR ''e'' \<or> c = chr16 CHR ''E'' then
            (let (sg, ds) =
                   (case cs of
                      [] \<Rightarrow> ([], cs)
                    | s # t \<Rightarrow> if s = chr16 CHR ''+'' \<or> s = chr16 CHR ''-'' then ([s], t) else ([], cs))
             in if takeWhile is_digit ds = [] then None
                else Some (c # sg @ takeWhile is_digit ds, dropWhile is_digit ds))
          else Some ([], r))"

definition parse_number :: "js_string \<Rightarrow> (js_string \<times> js_string) option" where
  "parse_number inp =
     (let (sg, r0) =
            (case inp of
               [] \<Rightarrow> ([], inp)
             | c # cs \<Rightarrow> if c = chr16 CHR ''-'' then ([c], cs) else ([], inp))
      in case r0 of
           [] \<Rightarrow> None
         | d # ds \<Rightarrow>
             if \<not> is_digit d then None
             else
               (let (ip, r1) =
                      (if d = chr16 CHR ''0'' then ([d], ds)
                       else (takeWhile is_digit r0, dropWhile is_digit r0))
                in case parse_frac r1 of
                     None \<Rightarrow> None
                   | Some (fp, r2) \<Rightarrow>
                       (case parse_exp r2 of
                          None \<Rightarrow> None
                        | Some (ep, r3) \<Rightarrow> Some (sg @ ip @ fp @ ep, r3))))"

definition parse_literal :: "js_string \<Rightarrow> (json \<times> js_string) option" where
  "parse_literal inp =
     (if prefix (str ''true'') inp then Some (JBool True, drop 4 inp)
      else if prefix (str ''false'') inp then Some (JBool False, drop 5 inp)
      else if prefix (str ''null'') inp then Some (JNull, drop 4 inp)
      else None)"

subsection \<open>Values\<close>

text \<open>
  An object literal creates its properties from left to right; a name that occurs
  again overwrites the value of the property created before and keeps its place.
\<close>

definition object_of :: "(js_string \<times> json) list \<Rightarrow> (js_string \<times> json) list" where
  "object_of ms = foldl (\<lambda>obj (k, v). AList.update k v obj) [] ms"

text \<open>
  The parser is a recursive descent over the input. The first argument bounds the
  depth of the recursion, so that the functions are total; \<open>JSON_parse\<close> starts
  with a bound taken from the length of the text, which is never reached
  (\<open>JSON_parse_total\<close> below). \<open>parse_elements\<close> reads the
  elements of an array after its opening bracket and \<open>parse_members\<close> the members
  of an object after its opening brace, both up to and including the closing one.
\<close>

fun parse_value :: "nat \<Rightarrow> js_string \<Rightarrow> parse_error + (json \<times> js_string)"
  and parse_elements :: "nat \<Rightarrow> js_string \<Rightarrow> parse_error + (json list \<times> js_string)"
  and parse_members :: "nat \<Rightarrow> js_string \<Rightarrow> parse_error + ((js_string \<times> json) list \<times> js_string)"
where
  "parse_value 0 inp = Inl OutOfFuel"
| "parse_value (Suc n) inp =
     (case skip_ws inp of
        [] \<Rightarrow> Inl SyntaxError
      | c # cs \<Rightarrow>
          if c = chr16 CHR ''{'' then
            (case skip_ws cs of
               [] \<Rightarrow> Inl SyntaxError
             | d # ds \<Rightarrow>
                 if d = chr16 CHR ''}'' then Inr (JObject [], ds)
                 else
                   (case parse_members n (d # ds) of
                      Inl e \<Rightarrow> Inl e
                    | Inr (ms, r) \<Rightarrow> Inr (JObject (object_of ms), r)))
          else if c = chr16 CHR ''['' then
            (case skip_ws cs of
               [] \<Rightarrow> Inl SyntaxError
             | d # ds \<Rightarrow>
                 if d = chr16 CHR '']'' then Inr (JArray [], ds)
                 else
                   (case parse_elements n (d # ds) of
                      Inl e \<Rightarrow> Inl e
                    | Inr (vs, r) \<Rightarrow> Inr (JArray vs, r)))
          else if c = chr16 CHR 0x22 then
            (case parse_string_chars cs of
               None \<Rightarrow> Inl SyntaxError
             | Some (s, r) \<Rightarrow> Inr (JString s, r))
          else if c = chr16 CHR ''-'' \<or> is_digit c then
            (case parse_number (c # cs) of
               None \<Rightarrow> Inl SyntaxError
             | Some (t, r) \<Rightarrow> Inr (JNumber t, r))
          else
            (case parse_literal (c # cs) of
               None \<Rightarrow> Inl SyntaxError
             | Some (v, r) \<Rightarrow> Inr (v, r)))"
| "parse_elements 0 inp = Inl OutOfFuel"
| "parse_elements (Suc n) inp =
     (case parse_value n inp of
        Inl e \<Rightarrow> Inl e
      | Inr (v, r) \<Rightarrow>
          (case skip_ws r of
             [] \<Rightarrow> Inl SyntaxError
           | c # cs \<Rightarrow>
               if c = chr16 CHR '']'' then Inr ([v], cs)
               else if c = chr16 CHR '','' then
                 (case parse_elements n cs of
                    Inl e \<Rightarrow> Inl e
                  | Inr (vs, r') \<Rightarrow> Inr (v # vs, r'))
               else Inl SyntaxError))"
| "parse_members 0 inp = Inl OutOfFuel"
| "parse_members (Suc n) inp =
     (case skip_ws inp of
        [] \<Rightarrow> Inl SyntaxError
      | q # cs \<Rightarrow>
          if q \<noteq> chr16 CHR 0x22 then Inl SyntaxError
          else
            (case parse_string_chars cs of
               None \<Rightarrow> Inl SyntaxError
             | Some (k, r) \<Rightarrow>
                 (case skip_ws r of
                    [] \<Rightarrow> Inl SyntaxError
                  | c # r1 \<Rightarrow>
                      if c \<noteq> chr16 CHR '':'' then Inl SyntaxError
                      else
                        (case parse_value n r1 of
                           Inl e \<Rightarrow> Inl e
                         | Inr (v, r2) \<Rightarrow>
                             (case skip_ws r2 of
                                [] \<Rightarrow> Inl SyntaxError
                              | d # r3 \<Rightarrow>
                                  if d = chr16 CHR ''}'' then Inr ([(k, v)], r3)
                                  else if d = chr16 CHR '','' then
                                    (case parse_members n r3 of
                                       Inl e \<Rightarrow> Inl e
                                     | Inr (ms, r4) \<Rightarrow> Inr ((k, v) # ms, r4))
                                  else Inl SyntaxError)))))"

definition JSON_parse :: "js_string \<Rightarrow> parse_error + json" where
  "JSON_parse text =
     (case parse_value (2 * length text + 2) text of
        Inl e \<Rightarrow> Inl e
      | Inr (v, r) \<Rightarrow> if skip_ws r = [] then Inr v else Inl SyntaxError)"

subsection \<open>Reading a parsed value at the type \<^verbatim>\<open>Bookmark[]\<close>\<close>

text \<open>
  \<^verbatim>\<open>setBookmarks(JSON.parse(storedBookmarks))\<close> stores what the parser returns without
  looking at it. The state variable is declared as \<^verbatim>\<open>Bookmark[]\<close>, and the values
  described here are the ones of that shape as the program itself writes them: an
  array of objects with exactly the four string properties, in the order of the
  interface. On any other value the result is \<open>None\<close>.
\<close>

fun as_Bookmark :: "json \<Rightarrow> Bookmark option" where
  "as_Bookmark (JObject [(k1, JString v1), (k2, JString v2), (k3, JString v3), (k4, JString v4)]) =
     (if k1 = str ''id'' \<and> k2 = str ''note'' \<and> k3 = str ''app'' \<and> k4 = str ''timestamp''
      then Some \<lparr>id' = v1, note = v2, app = v3, timestamp = v4\<rparr>
      else None)"
| "as_Bookmark _ = None"

fun as_Bookmarks :: "json \<Rightarrow> Bookmark list option" where
  "as_Bookmarks (JArray vs) = those (map as_Bookmark vs)"
| "as_Bookmarks _ = None"

section \<open>The component \<^verbatim>\<open>App\<close>\<close>

subsection \<open>State and collaborators\<close>

text \<open>
  An awaited call of a collaborator either resolves with a value or rejects; which of
  the two happens is decided outside the program and is an argument of the handler
  that awaits the call.
\<close>

datatype 'a promise = Resolved 'a | Rejected

text \<open>
  What the program does to its collaborators besides reading and writing the storage:
  the calls of the native module, the alerts and the console messages, in the order
  they are made.
\<close>

datatype native_call =
    hasOverlayPermission
  | requestOverlayPermission
  | isServiceRunning_call
  | startFloatingWidgetService
  | stopFloatingWidgetService
  | getForegroundApp

datatype effect =
    Native native_call
  | Alert_alert string string
  | console_error string

text \<open>
  The six state variables of the component, the key-value store behind
  \<^verbatim>\<open>AsyncStorage\<close> and the effects so far. A handler runs from its first statement
  to its last without another handler in between; the state updates it requests are
  applied in program order.
\<close>

record state =
  hasPermission :: bool
  isServiceRunning :: bool
  modalVisible :: bool
  currentNote :: js_string
  "context" :: "Context option"
  bookmarks :: "Bookmark list"
  storage :: "js_string \<rightharpoonup> js_string"
  effects :: "effect list"

definition emit :: "effect list \<Rightarrow> state \<Rightarrow> state" where
  "emit es s = s\<lparr>effects := effects s @ es\<rparr>"

text \<open>The initial values of the \<^verbatim>\<open>useState\<close> calls, over a given storage.\<close>

definition initial :: "(js_string \<rightharpoonup> js_string) \<Rightarrow> state" where
  "initial st =
     \<lparr>hasPermission = False, isServiceRunning = False, modalVisible = False,
      currentNote = [], context = None, bookmarks = [], storage = st, effects = []\<rparr>"

subsection \<open>Effects run on mount\<close>

text \<open>
  \<^verbatim>\<open>loadBookmarks\<close>: the argument is the outcome of \<^verbatim>\<open>AsyncStorage.getItem\<close>, which
  resolves with the stored text or \<^verbatim>\<open>null\<close>. The empty text is falsy, as \<^verbatim>\<open>null\<close> is.
  A \<^verbatim>\<open>SyntaxError\<close> is caught and logged. The result is \<open>None\<close> where the stored
  text denotes a value that is no \<^verbatim>\<open>Bookmark[]\<close>.
\<close>

definition loadBookmarks :: "unit promise \<Rightarrow> state \<Rightarrow> state option" where
  "loadBookmarks got s =
     (case got of
        Rejected \<Rightarrow> Some (emit [console_error ''Failed to load bookmarks.''] s)
      | Resolved _ \<Rightarrow>
          (case storage s (str ''bookmarks'') of
             None \<Rightarrow> Some s
           | Some storedBookmarks \<Rightarrow>
               if storedBookmarks = [] then Some s
               else
                 (case JSON_parse storedBookmarks of
                    Inl e \<Rightarrow> Some (emit [console_error ''Failed to load bookmarks.''] s)
                  | Inr v \<Rightarrow>
                      (case as_Bookmarks v of
                         None \<Rightarrow> None
                       | Some bs \<Rightarrow> Some (s\<lparr>bookmarks := bs\<rparr>)))))"

text \<open>
  The statements of \<^verbatim>\<open>loadBookmarks\<close> after the await, on what \<^verbatim>\<open>getItem\<close>
  resolved with. The read is made when the component mounts; nothing in the program
  keeps the native event and the handlers from running before the awaited call
  resolves, and then these statements run on a later state than the read.
  \<open>loadBookmarks\<close> is the case with nothing in between
  (\<open>loadBookmarks_as_continuation\<close>).
\<close>

definition loadBookmarks_after_getItem :: "js_string option promise \<Rightarrow> state \<Rightarrow> state option" where
  "loadBookmarks_after_getItem got s =
     (case got of
        Rejected \<Rightarrow> Some (emit [console_error ''Failed to load bookmarks.''] s)
      | Resolved None \<Rightarrow> Some s
      | Resolved (Some storedBookmarks) \<Rightarrow>
          if storedBookmarks = [] then Some s
          else
            (case JSON_parse storedBookmarks of
               Inl e \<Rightarrow> Some (emit [console_error ''Failed to load bookmarks.''] s)
             | Inr v \<Rightarrow>
                 (case as_Bookmarks v of
                    None \<Rightarrow> None
                  | Some bs \<Rightarrow> Some (s\<lparr>bookmarks := bs\<rparr>))))"

text \<open>
  \<^verbatim>\<open>checkStatus\<close>: the arguments are the outcomes of \<^verbatim>\<open>hasOverlayPermission\<close> and
  of \<^verbatim>\<open>isServiceRunning\<close>; the second is awaited only with the permission.
\<close>

definition checkStatus :: "bool promise \<Rightarrow> bool promise \<Rightarrow> state \<Rightarrow> state" where
  "checkStatus perm running s =
     (case perm of
        Rejected \<Rightarrow> emit [Native hasOverlayPermission, console_error ''Failed to check status.''] s
      | Resolved permissionStatus \<Rightarrow>
          (let s1 = emit [Native hasOverlayPermission] (s\<lparr>hasPermission := permissionStatus\<rparr>)
           in if permissionStatus then
                (case running of
                   Rejected \<Rightarrow>
                     emit [Native isServiceRunning_call, console_error ''Failed to check status.''] s1
                 | Resolved serviceStatus \<Rightarrow>
                     emit [Native isServiceRunning_call] (s1\<lparr>isServiceRunning := serviceStatus\<rparr>))
              else s1))"

subsection \<open>Handlers\<close>

text \<open>
  The listener of \<^verbatim>\<open>onFloatingButtonPress\<close>. \<open>toLocaleString\<close> is the formatting of
  a time value in the locale of the device, which the program does not define;
  \<open>foregroundApp\<close> is the outcome of \<^verbatim>\<open>getForegroundApp\<close> and \<open>date\<close> the time
  value of \<^verbatim>\<open>new Date()\<close>, read after the call has resolved.
\<close>

definition onFloatingButtonPress ::
  "(int \<Rightarrow> js_string) \<Rightarrow> js_string promise \<Rightarrow> int \<Rightarrow> state \<Rightarrow> state" where
  "onFloatingButtonPress toLocaleString foregroundApp date s =
     (case foregroundApp of
        Resolved a \<Rightarrow>
          emit [Native getForegroundApp]
            (s\<lparr>context := Some \<lparr>app' = a, timestamp' = toLocaleString date\<rparr>,
               modalVisible := True\<rparr>)
      | Rejected \<Rightarrow>
          emit [Native getForegroundApp, console_error ''Failed to get context'',
                Alert_alert ''Error''
                  ''Could not get current app info. You may need to grant Usage Access permission manually in your phone's settings.'']
            s)"

definition requestPermission :: "bool promise \<Rightarrow> state \<Rightarrow> state" where
  "requestPermission answer s =
     (case answer of
        Resolved granted \<Rightarrow>
          (let s1 = emit [Native requestOverlayPermission] (s\<lparr>hasPermission := granted\<rparr>)
           in if \<not> granted then
                emit [Alert_alert ''Permission Denied''
                        ''The floating button requires 'Draw over other apps' permission. Please grant it from the settings.'']
                  s1
              else s1)
      | Rejected \<Rightarrow>
          emit [Native requestOverlayPermission, console_error ''Failed to request permission''] s)"

text \<open>
  \<^verbatim>\<open>toggleService\<close>: \<open>answer\<close> is the outcome of the permission request, which is
  made in the last branch only.
\<close>

definition toggleService :: "bool promise \<Rightarrow> state \<Rightarrow> state" where
  "toggleService answer s =
     (if isServiceRunning s then
        (emit [Native stopFloatingWidgetService] s)\<lparr>isServiceRunning := False\<rparr>
      else if hasPermission s then
        (emit [Native startFloatingWidgetService] s)\<lparr>isServiceRunning := True\<rparr>
      else requestPermission answer s)"

text \<open>
  \<^verbatim>\<open>handleSaveNote\<close>: \<open>now\<close> is the value of \<^verbatim>\<open>Date.now()\<close> and \<open>written\<close> the
  outcome of \<^verbatim>\<open>AsyncStorage.setItem\<close>. A rejected write leaves the storage as it
  was. The list is updated before the write is awaited; the three resets follow it.
\<close>

definition handleSaveNote :: "int \<Rightarrow> unit promise \<Rightarrow> state \<Rightarrow> state" where
  "handleSaveNote now written s =
     (if currentNote s = [] \<or> context s = None then s
      else
        (case context s of
           None \<Rightarrow> s
         | Some c \<Rightarrow>
             (let newBookmark =
                    \<lparr>id' = Number_toString now, note = currentNote s,
                     app = app' c, timestamp = timestamp' c\<rparr>;
                  updatedBookmarks = newBookmark # bookmarks s;
                  s1 = s\<lparr>bookmarks := updatedBookmarks\<rparr>
              in case written of
                   Resolved _ \<Rightarrow>
                     s1\<lparr>storage := (storage s1)(str ''bookmarks'' \<mapsto> JSON_stringify updatedBookmarks),
                        currentNote := [], context := None, modalVisible := False\<rparr>
                 | Rejected \<Rightarrow>
                     emit [console_error ''Failed to save bookmark.'',
                           Alert_alert ''Error'' ''Could not save the bookmark.'']
                       s1)))"

subsection \<open>Events\<close>

text \<open>
  What can happen after the component is mounted: the native event, the four
  callbacks wired to the controls (\<^verbatim>\<open>onChangeText={setCurrentNote}\<close>, the two
  buttons of the dialog with \<^verbatim>\<open>onRequestClose\<close>, the two buttons of the main
  screen), each with the outcomes of the calls its handler awaits.
\<close>

datatype event =
    FloatingButtonPress "js_string promise" int
  | ChangeText js_string
  | SaveNote int "unit promise"
  | CloseModal
  | ToggleService "bool promise"
  | RequestPermission "bool promise"

fun step :: "(int \<Rightarrow> js_string) \<Rightarrow> state \<Rightarrow> event \<Rightarrow> state" where
  "step L s (FloatingButtonPress foregroundApp date) = onFloatingButtonPress L foregroundApp date s"
| "step L s (ChangeText text) = s\<lparr>currentNote := text\<rparr>"
| "step L s (SaveNote now written) = handleSaveNote now written s"
| "step L s CloseModal = s\<lparr>modalVisible := False\<rparr>"
| "step L s (ToggleService answer) = toggleService answer s"
| "step L s (RequestPermission answer) = requestPermission answer s"

definition run :: "(int \<Rightarrow> js_string) \<Rightarrow> state \<Rightarrow> event list \<Rightarrow> state" where
  "run L = foldl (step L)"

section \<open>Notions used in the statements\<close>

text \<open>The value \<^verbatim>\<open>JSON.parse\<close> returns on the text written for a bookmark.\<close>

definition json_of_Bookmark :: "Bookmark \<Rightarrow> json" where
  "json_of_Bookmark b =
     JObject [(str ''id'', JString (id' b)), (str ''note'', JString (note b)),
              (str ''app'', JString (app b)), (str ''timestamp'', JString (timestamp b))]"

text \<open>
  The list a stored text denotes, and the list persisted in a state: what the load on
  mount would put into the state variable.
\<close>

definition deserialize :: "js_string \<Rightarrow> Bookmark list option" where
  "deserialize blob = (case JSON_parse blob of Inl e \<Rightarrow> None | Inr v \<Rightarrow> as_Bookmarks v)"

definition persisted :: "state \<Rightarrow> Bookmark list option" where
  "persisted s =
     (case storage s (str ''bookmarks'') of None \<Rightarrow> None | Some blob \<Rightarrow> deserialize blob)"

text \<open>The clock readings of the save events of a run, in order.\<close>

fun save_times :: "event list \<Rightarrow> int list" where
  "save_times [] = []"
| "save_times (SaveNote now written # es) = now # save_times es"
| "save_times (e # es) = save_times es"

text \<open>
  The events that can replace or clear the capture context: a button press whose
  query resolves, and a save whose write resolves.
\<close>

fun replaces_context :: "event \<Rightarrow> bool" where
  "replaces_context (FloatingButtonPress (Resolved a) date) = True"
| "replaces_context (SaveNote now (Resolved u)) = True"
| "replaces_context e = False"

text \<open>The effects a handler adds when it takes the state \<open>s\<close> to \<open>s'\<close>.\<close>

definition issued :: "state \<Rightarrow> state \<Rightarrow> effect list" where
  "issued s s' = drop (length (effects s)) (effects s')"


text \<open>The number a string of decimal digits denotes.\<close>

definition decimal_value :: "js_string \<Rightarrow> nat" where
  "decimal_value ds = foldl (\<lambda>a d. 10 * a + (unat d - 48)) 0 ds"

subsection \<open>Concrete values\<close>

text \<open>
  A stand-in for the locale formatting and a few states and runs on which the
  statements below are evaluated: a button press over Chrome, a note typed, the note
  saved, a second capture with its note typed; a session in which the clock is set
  back between two saves; a session with a failed write; and what a user may do
  between a capture and the save.
\<close>

definition example_locale :: "int \<Rightarrow> js_string" where
  "example_locale date = str ''t='' @ Number_toString date"

definition example_pressed :: state where
  "example_pressed =
     step example_locale (initial Map.empty)
       (FloatingButtonPress (Resolved (str ''com.android.chrome'')) 1730538720000)"

definition example_typed :: state where
  "example_typed = step example_locale example_pressed (ChangeText (str ''read later''))"

definition example_saved :: state where
  "example_saved = handleSaveNote 1730538725000 (Resolved ()) example_typed"

definition example_typed_again :: state where
  "example_typed_again =
     run example_locale example_saved
       [FloatingButtonPress (Resolved (str ''com.android.settings'')) 1730538730000,
        ChangeText (str ''check this'')]"

definition example_clock_set_back :: "event list" where
  "example_clock_set_back =
     [FloatingButtonPress (Resolved (str ''com.android.chrome'')) 1730538720000,
      ChangeText (str ''read later''),
      SaveNote 1730538725000 (Resolved ()),
      FloatingButtonPress (Resolved (str ''com.android.settings'')) 1730538722000,
      ChangeText (str ''check this''),
      SaveNote 1730538725000 (Resolved ())]"

definition example_session :: "event list" where
  "example_session =
     [FloatingButtonPress (Resolved (str ''com.android.chrome'')) 1730538720000,
      ChangeText (str ''read later''),
      SaveNote 1730538725000 (Resolved ()),
      ToggleService Rejected,
      FloatingButtonPress (Resolved (str ''com.android.settings'')) 1730538730000,
      ChangeText (str ''check this''),
      SaveNote 1730538735000 Rejected,
      SaveNote 1730538736000 (Resolved ())]"

definition example_delay :: "event list" where
  "example_delay =
     [ChangeText (str ''read''), CloseModal, RequestPermission (Resolved False),
      FloatingButtonPress Rejected 1730538721000, ChangeText (str ''read later'')]"

definition example_delayed :: state where
  "example_delayed = run example_locale example_pressed example_delay"

definition example_permitted :: state where
  "example_permitted = checkStatus (Resolved True) (Resolved False) (initial Map.empty)"




section \<open>Serialization round trip\<close>

subsection \<open>Strings\<close>

lemma unat_hex_digit: "d < 16 \<Longrightarrow> unat (hex_digit d) = (if d < 10 then 48 + d else 87 + d)"
  unfolding hex_digit_def by (simp add: unat_of_nat del: of_nat_add)

lemma hex_value_unat:
  "hex_value c =
     (if 48 \<le> unat c \<and> unat c \<le> 57 then Some (unat c - 48)
      else if 97 \<le> unat c \<and> unat c \<le> 102 then Some (unat c - 87)
      else if 65 \<le> unat c \<and> unat c \<le> 70 then Some (unat c - 55)
      else None)"
  by (simp add: hex_value_def word_le_nat_alt)

lemma hex_value_hex_digit: "d < 16 \<Longrightarrow> hex_value (hex_digit d) = Some d"
  by (simp add: hex_value_unat unat_hex_digit)

lemma nibbles:
  "((n div 4096 * 16 + n div 256 mod 16) * 16 + n div 16 mod 16) * 16 + n mod 16 = (n::nat)"
proof -
  have a: "n div 4096 = n div 256 div 16" by (simp add: div_mult2_eq)
  have b: "n div 256 = n div 16 div 16" by (simp add: div_mult2_eq)
  have "n div 4096 * 16 + n div 256 mod 16 = n div 256" unfolding a by simp
  moreover have "n div 256 * 16 + n div 16 mod 16 = n div 16" unfolding b by simp
  moreover have "n div 16 * 16 + n mod 16 = n" by simp
  ultimately show ?thesis by simp
qed

lemma parse_hex4_UnicodeEscape:
  "parse_hex4 (hex_digit (unat c div 4096)) (hex_digit (unat c div 256 mod 16))
      (hex_digit (unat c div 16 mod 16)) (hex_digit (unat c mod 16)) = Some c"
proof -
  have lt: "unat c < 65536" using unsigned_less [of c] by simp
  then have a: "unat c div 4096 < 16" by simp
  have "parse_hex4 (hex_digit (unat c div 4096)) (hex_digit (unat c div 256 mod 16))
      (hex_digit (unat c div 16 mod 16)) (hex_digit (unat c mod 16))
     = Some (of_nat (((unat c div 4096 * 16 + unat c div 256 mod 16) * 16 + unat c div 16 mod 16) * 16 + unat c mod 16))"
    using a by (simp only: parse_hex4_def hex_value_hex_digit) simp
  then show ?thesis by (simp only: nibbles) simp
qed

lemma parse_quote_unit:
  "parse_string_chars (quote_unit c @ tail) =
     (case parse_string_chars tail of None \<Rightarrow> None | Some (s, r) \<Rightarrow> Some (c # s, r))"
  by (auto simp: quote_unit_def UnicodeEscape_def unescape_def parse_hex4_UnicodeEscape
      split: option.split)

lemma parse_surrogate_pair:
  assumes "is_leading_surrogate c" and "is_trailing_surrogate d"
  shows "parse_string_chars (c # d # tail) =
     (case parse_string_chars tail of None \<Rightarrow> None | Some (s, r) \<Rightarrow> Some (c # d # s, r))"
proof -
  have c: "c \<noteq> 0x22" "c \<noteq> 0x5C" "\<not> c < 0x20"
    using assms(1) by (auto simp: is_leading_surrogate_def word_le_nat_alt word_less_nat_alt)
  have d: "d \<noteq> 0x22" "d \<noteq> 0x5C" "\<not> d < 0x20"
    using assms(2) by (auto simp: is_trailing_surrogate_def word_le_nat_alt word_less_nat_alt)
  show ?thesis using c d by (simp split: option.split)
qed

lemma parse_quote_units:
  "parse_string_chars (quote_units s @ chr16 CHR 0x22 # rest) = Some (s, rest)"
proof (induction s rule: quote_units.induct)
  case 1
  show ?case by simp
next
  case (2 c)
  show ?case by (simp add: parse_quote_unit)
next
  case (3 c d cs)
  show ?case
  proof (cases "is_leading_surrogate c \<and> is_trailing_surrogate d")
    case True
    then have q: "quote_units (c # d # cs) = c # d # quote_units cs" by simp
    from True 3(1) have ih: "parse_string_chars (quote_units cs @ chr16 CHR 0x22 # rest) = Some (cs, rest)"
      by blast
    from True ih show ?thesis
      unfolding q by (simp add: parse_surrogate_pair del: parse_string_chars.simps)
  next
    case False
    then have q: "quote_units (c # d # cs) = quote_unit c @ quote_units (d # cs)"
      by (simp only: quote_units.simps if_False)
    from False 3(2) have ih: "parse_string_chars (quote_units (d # cs) @ chr16 CHR 0x22 # rest) = Some (d # cs, rest)"
      by blast
    from ih show ?thesis
      unfolding q by (simp add: parse_quote_unit del: parse_string_chars.simps quote_units.simps)
  qed
qed

subsection \<open>Objects and arrays\<close>

lemma skip_ws_quote [simp]: "skip_ws (QuoteJSONString v @ rest) = QuoteJSONString v @ rest"
  by (simp add: skip_ws_def is_ws_def QuoteJSONString_def)

lemma parse_value_string:
  "parse_value (Suc n) (QuoteJSONString v @ rest) = Inr (JString v, rest)"
  using parse_quote_units [of v rest]
  by (simp add: QuoteJSONString_def skip_ws_def is_ws_def)

lemma parse_members_more:
  "parse_members (Suc (Suc n)) (stringify_property k v @ chr16 CHR '','' # follow) =
     (case parse_members (Suc n) follow of
        Inl e \<Rightarrow> Inl e
      | Inr (ms, r) \<Rightarrow> Inr ((str k, JString v) # ms, r))"
proof -
  have key: "parse_string_chars (quote_units (str k) @ chr16 CHR 0x22 # chr16 CHR '':'' # QuoteJSONString v @ chr16 CHR '','' # follow)
      = Some (str k, chr16 CHR '':'' # QuoteJSONString v @ chr16 CHR '','' # follow)"
    by (rule parse_quote_units)
  have val: "parse_value (Suc n) (QuoteJSONString v @ chr16 CHR '','' # follow) = Inr (JString v, chr16 CHR '','' # follow)"
    by (rule parse_value_string)
  show ?thesis
    using key val
    by (simp add: stringify_property_def QuoteJSONString_def skip_ws_def is_ws_def
        del: parse_value.simps parse_string_chars.simps)
qed

lemma parse_members_last:
  "parse_members (Suc (Suc n)) (stringify_property k v @ chr16 CHR ''}'' # rest) =
     Inr ([(str k, JString v)], rest)"
proof -
  have key: "parse_string_chars (quote_units (str k) @ chr16 CHR 0x22 # chr16 CHR '':'' # QuoteJSONString v @ chr16 CHR ''}'' # rest)
      = Some (str k, chr16 CHR '':'' # QuoteJSONString v @ chr16 CHR ''}'' # rest)"
    by (rule parse_quote_units)
  have val: "parse_value (Suc n) (QuoteJSONString v @ chr16 CHR ''}'' # rest) = Inr (JString v, chr16 CHR ''}'' # rest)"
    by (rule parse_value_string)
  show ?thesis
    using key val
    by (simp add: stringify_property_def QuoteJSONString_def skip_ws_def is_ws_def
        del: parse_value.simps parse_string_chars.simps)
qed

lemma object_of_Bookmark:
  "object_of [(str ''id'', a), (str ''note'', b), (str ''app'', c), (str ''timestamp'', d)] =
     [(str ''id'', a), (str ''note'', b), (str ''app'', c), (str ''timestamp'', d)]"
  by (simp add: object_of_def str_def)

lemma parse_members_Bookmark:
  "parse_members (Suc (Suc (Suc (Suc (Suc n)))))
     (stringify_property ''id'' (id' b)
      @ chr16 CHR '','' # stringify_property ''note'' (note b)
      @ chr16 CHR '','' # stringify_property ''app'' (app b)
      @ chr16 CHR '','' # stringify_property ''timestamp'' (timestamp b)
      @ chr16 CHR ''}'' # rest) =
   Inr ([(str ''id'', JString (id' b)), (str ''note'', JString (note b)),
         (str ''app'', JString (app b)), (str ''timestamp'', JString (timestamp b))], rest)"
  by (simp only: parse_members_more parse_members_last sum.case prod.case)

lemma stringify_Bookmark_head:
  "\<exists>t. stringify_property ''id'' v @ follow = chr16 CHR 0x22 # t"
  by (simp add: stringify_property_def QuoteJSONString_def)

lemma parse_value_object:
  "skip_ws cs = d # ds \<Longrightarrow> d \<noteq> chr16 CHR ''}'' \<Longrightarrow>
   parse_value (Suc n) (chr16 CHR ''{'' # cs) =
     (case parse_members n (d # ds) of
        Inl e \<Rightarrow> Inl e
      | Inr (ms, r) \<Rightarrow> Inr (JObject (object_of ms), r))"
  by (simp add: skip_ws_def is_ws_def)

lemma parse_value_Bookmark:
  "parse_value (Suc (Suc (Suc (Suc (Suc (Suc n)))))) (stringify_Bookmark b @ rest) =
     Inr (json_of_Bookmark b, rest)"
proof -
  let ?body = "stringify_property ''id'' (id' b)
      @ chr16 CHR '','' # stringify_property ''note'' (note b)
      @ chr16 CHR '','' # stringify_property ''app'' (app b)
      @ chr16 CHR '','' # stringify_property ''timestamp'' (timestamp b)
      @ chr16 CHR ''}'' # rest"
  have shape: "stringify_Bookmark b @ rest = chr16 CHR ''{'' # ?body"
    by (simp add: stringify_Bookmark_def)
  obtain t where t: "?body = chr16 CHR 0x22 # t"
    using stringify_Bookmark_head [of "id' b"] by blast
  have ws: "skip_ws ?body = chr16 CHR 0x22 # t"
    unfolding t by (simp add: skip_ws_def is_ws_def)
  have "parse_value (Suc (Suc (Suc (Suc (Suc (Suc n)))))) (chr16 CHR ''{'' # ?body) =
       (case parse_members (Suc (Suc (Suc (Suc (Suc n))))) (chr16 CHR 0x22 # t) of
          Inl e \<Rightarrow> Inl e
        | Inr (ms, r) \<Rightarrow> Inr (JObject (object_of ms), r))"
    by (rule parse_value_object [OF ws]) simp
  then show ?thesis
    unfolding shape t [symmetric]
    by (simp only: parse_members_Bookmark sum.case prod.case object_of_Bookmark json_of_Bookmark_def)
qed

lemma parse_elements_last:
  "parse_value k inp = Inr (v, chr16 CHR '']'' # r) \<Longrightarrow> parse_elements (Suc k) inp = Inr ([v], r)"
  by (simp add: skip_ws_def is_ws_def)

lemma parse_elements_next:
  "parse_value k inp = Inr (v, chr16 CHR '','' # r) \<Longrightarrow> parse_elements k r = Inr (vs, r') \<Longrightarrow>
   parse_elements (Suc k) inp = Inr (v # vs, r')"
  by (simp add: skip_ws_def is_ws_def)

lemma parse_elements_Bookmarks:
  "bs \<noteq> [] \<Longrightarrow>
   parse_elements (length bs + 6 + n) (stringify_elements bs @ chr16 CHR '']'' # rest) =
     Inr (map json_of_Bookmark bs, rest)"
proof (induction bs rule: stringify_elements.induct)
  case 1
  then show ?case by simp
next
  case (2 b)
  have f: "length [b] + 6 + n = Suc (Suc (Suc (Suc (Suc (Suc (Suc n))))))" by simp
  have "parse_elements (Suc (Suc (Suc (Suc (Suc (Suc (Suc n)))))))
          (stringify_Bookmark b @ chr16 CHR '']'' # rest) = Inr ([json_of_Bookmark b], rest)"
    by (rule parse_elements_last) (rule parse_value_Bookmark)
  then show ?case
    unfolding f by simp
next
  case (3 b b' bs)
  have f: "length (b # b' # bs) + 6 + n = Suc (length (b' # bs) + 6 + n)" by simp
  have m: "length (b' # bs) + 6 + n = Suc (Suc (Suc (Suc (Suc (Suc (Suc (length bs + n)))))))"
    by simp
  have v: "parse_value (length (b' # bs) + 6 + n)
             (stringify_Bookmark b @ chr16 CHR '','' # stringify_elements (b' # bs) @ chr16 CHR '']'' # rest)
        = Inr (json_of_Bookmark b, chr16 CHR '','' # stringify_elements (b' # bs) @ chr16 CHR '']'' # rest)"
    unfolding m by (rule parse_value_Bookmark)
  have ih: "parse_elements (length (b' # bs) + 6 + n) (stringify_elements (b' # bs) @ chr16 CHR '']'' # rest) =
     Inr (map json_of_Bookmark (b' # bs), rest)"
    using 3 by simp
  have "parse_elements (Suc (length (b' # bs) + 6 + n))
          (stringify_Bookmark b @ chr16 CHR '','' # stringify_elements (b' # bs) @ chr16 CHR '']'' # rest)
        = Inr (json_of_Bookmark b # map json_of_Bookmark (b' # bs), rest)"
    by (rule parse_elements_next [OF v ih])
  then show ?case
    unfolding f by simp
qed

lemma length_stringify_elements: "length bs \<le> length (stringify_elements bs)"
  by (induction bs rule: stringify_elements.induct) (simp_all add: stringify_Bookmark_def)

lemma stringify_elements_head:
  "bs \<noteq> [] \<Longrightarrow> \<exists>t. stringify_elements bs @ follow = chr16 CHR ''{'' # t"
  by (induction bs rule: stringify_elements.induct) (simp_all add: stringify_Bookmark_def)

lemma parse_value_array:
  "skip_ws cs = d # ds \<Longrightarrow> d \<noteq> chr16 CHR '']'' \<Longrightarrow>
   parse_value (Suc n) (chr16 CHR ''['' # cs) =
     (case parse_elements n (d # ds) of
        Inl e \<Rightarrow> Inl e
      | Inr (vs, r) \<Rightarrow> Inr (JArray vs, r))"
  by (simp add: skip_ws_def is_ws_def)

lemma JSON_parse_stringify:
  "JSON_parse (JSON_stringify bs) = Inr (JArray (map json_of_Bookmark bs))"
proof (cases "bs = []")
  case True
  have six: "2 * length [chr16 CHR ''['', chr16 CHR '']''] + 2 = Suc 5" by simp
  have "parse_value (Suc 5) [chr16 CHR ''['', chr16 CHR '']''] = Inr (JArray [], [])"
    by (simp only: parse_value.simps) (simp add: skip_ws_def is_ws_def)
  then have "JSON_parse [chr16 CHR ''['', chr16 CHR '']''] = Inr (JArray [])"
    unfolding JSON_parse_def six by (simp add: skip_ws_def)
  with True show ?thesis
    by (simp add: JSON_stringify_def)
next
  case False
  let ?body = "stringify_elements bs @ [chr16 CHR '']'']"
  obtain t where t: "?body = chr16 CHR ''{'' # t"
    using stringify_elements_head [OF False] by blast
  have ws: "skip_ws ?body = chr16 CHR ''{'' # t"
    unfolding t by (simp add: skip_ws_def is_ws_def)
  have len: "length (JSON_stringify bs) = Suc (Suc (length (stringify_elements bs)))"
    by (simp add: JSON_stringify_def)
  from False have "1 \<le> length bs" by (cases bs) simp_all
  with length_stringify_elements [of bs]
  have "\<exists>n. 2 * length (JSON_stringify bs) + 1 = length bs + 6 + n"
    unfolding len by presburger
  then obtain n where n: "2 * length (JSON_stringify bs) + 2 = Suc (length bs + 6 + n)"
    by auto
  have "parse_value (Suc (length bs + 6 + n)) (chr16 CHR ''['' # ?body) =
       (case parse_elements (length bs + 6 + n) (chr16 CHR ''{'' # t) of
          Inl e \<Rightarrow> Inl e
        | Inr (vs, r) \<Rightarrow> Inr (JArray vs, r))"
    by (rule parse_value_array [OF ws]) simp
  also have "\<dots> = Inr (JArray (map json_of_Bookmark bs), [])"
    unfolding t [symmetric] by (simp only: parse_elements_Bookmarks [OF False] sum.case prod.case)
  finally have "parse_value (2 * length (JSON_stringify bs) + 2) (JSON_stringify bs) =
      Inr (JArray (map json_of_Bookmark bs), [])"
    unfolding n by (simp only: JSON_stringify_def)
  then show ?thesis
    by (simp add: JSON_parse_def skip_ws_def)
qed

lemma as_Bookmark_json_of: "as_Bookmark (json_of_Bookmark b) = Some b"
  by (simp add: json_of_Bookmark_def)

lemma as_Bookmarks_json_of: "as_Bookmarks (JArray (map json_of_Bookmark bs)) = Some bs"
  by (induction bs) (simp_all add: as_Bookmark_json_of)


subsection \<open>Serializer and parser on concrete texts\<close>

text \<open>
  A quotation mark, a surrogate pair, a lone surrogate, a line feed, another control
  character and a Hangul syllable through QuoteJSONString; the text written for one
  bookmark; escapes read back; and a text with white space, a repeated name, a
  number and literals.
\<close>

lemma quote_units_example:
  "quote_units [0x22, 0xD83D, 0xDE00, 0xD800, 0x0A, 0x1F, 0xC548] =
     [0x5C, 0x22, 0xD83D, 0xDE00,
      0x5C, 0x75, 0x64, 0x38, 0x30, 0x30,
      0x5C, 0x6E,
      0x5C, 0x75, 0x30, 0x30, 0x31, 0x66,
      0xC548]"
  by (simp add: quote_unit_def UnicodeEscape_def hex_digit_def
      is_leading_surrogate_def is_trailing_surrogate_def)

lemma JSON_stringify_example:
  \<open>JSON_stringify
     [\<lparr>id' = str ''1730538725000'', note = str ''read later'',
       app = str ''com.android.chrome'', timestamp = str ''11/2/2024, 9:12:00 AM''\<rparr>] =
   str ''[{"id":"1730538725000","note":"read later","app":"com.android.chrome","timestamp":"11/2/2024, 9:12:00 AM"}]''\<close>
  by (simp add: JSON_stringify_def stringify_Bookmark_def stringify_property_def
      QuoteJSONString_def quote_unit_def str_def
      is_leading_surrogate_def is_trailing_surrogate_def)

lemma parse_string_chars_example:
  "parse_string_chars [0x61, 0x5C, 0x75, 0x30, 0x30, 0x34, 0x31, 0x5C, 0x6E, 0xC548, 0x22, 0x2C] =
     Some ([0x61, 0x41, 0x0A, 0xC548], [0x2C])"
  by (simp add: unescape_def parse_hex4_def hex_value_def)

lemma JSON_parse_example:
  \<open>JSON_parse (str ''[ {"id":"1", "id":"2"}, "a", -1.5e3, true, null ]'') =
     Inr (JArray [JObject [(str ''id'', JString (str ''2''))],
                  JString (str ''a''), JNumber (str ''-1.5e3''), JBool True, JNull])\<close>
  by code_simp

subsection \<open>The bound of the parser is never reached\<close>

text \<open>
  Every parser returns a rest that is no longer than its input, and a call with a
  bound above twice the length of its input does not stop at the bound.
\<close>

lemma skip_ws_Cons_length: "skip_ws inp = c # cs \<Longrightarrow> length cs < length inp"
proof -
  assume a: "skip_ws inp = c # cs"
  have "length (skip_ws inp) \<le> length inp"
    unfolding skip_ws_def by (rule length_dropWhile_le)
  with a show ?thesis by simp
qed

lemma parse_string_chars_length:
  "parse_string_chars cs = Some (s, r) \<Longrightarrow> length r < length cs"
proof (induction cs arbitrary: s r rule: length_induct)
  case (1 cs)
  have ih: "parse_string_chars ys = Some (s', r') \<Longrightarrow> length ys < length cs \<Longrightarrow> length r' < length cs"
    for ys s' r'
    using 1(1) by (meson less_trans)
  from 1(2) show ?case
    by (cases cs) (auto split: if_splits list.splits option.splits dest!: ih)
qed

lemma parse_frac_length: "parse_frac r = Some (fp, r') \<Longrightarrow> length r' \<le> length r"
  by (auto simp: parse_frac_def split: list.splits if_splits
      intro: le_SucI length_dropWhile_le)

lemma parse_exp_length: "parse_exp r = Some (ep, r') \<Longrightarrow> length r' \<le> length r"
  by (auto simp: parse_exp_def Let_def split: list.splits if_splits
      intro: le_SucI length_dropWhile_le order_trans [OF length_dropWhile_le])

lemma parse_literal_length: "parse_literal inp = Some (v, r) \<Longrightarrow> length r \<le> length inp"
  by (auto simp: parse_literal_def split: if_splits)

lemma parse_number_length: "parse_number inp = Some (t, r) \<Longrightarrow> length r \<le> length inp"
proof -
  assume a: "parse_number inp = Some (t, r)"
  obtain sg r0 where sg: "(case inp of [] \<Rightarrow> ([], inp)
             | c # cs \<Rightarrow> if c = chr16 CHR ''-'' then ([c], cs) else ([], inp)) = (sg, r0)"
    by (cases "(case inp of [] \<Rightarrow> ([], inp)
             | c # cs \<Rightarrow> if c = chr16 CHR ''-'' then ([c], cs) else ([], inp))") blast
  then have l0: "length r0 \<le> length inp"
    by (auto split: list.splits if_splits)
  from a sg obtain d ds where r0: "r0 = d # ds"
    by (cases r0) (auto simp: parse_number_def)
  obtain ip r1 where ip: "(if d = chr16 CHR ''0'' then ([d], ds)
                       else (takeWhile is_digit r0, dropWhile is_digit r0)) = (ip, r1)"
    by (cases "(if d = chr16 CHR ''0'' then ([d], ds)
                       else (takeWhile is_digit r0, dropWhile is_digit r0))") blast
  then have l1: "length r1 \<le> length r0"
    using r0 by (auto split: if_splits intro: length_dropWhile_le le_SucI)
  from a sg r0 ip obtain fp r2 ep where
    f: "parse_frac r1 = Some (fp, r2)" and e: "parse_exp r2 = Some (ep, r)"
    by (auto simp: parse_number_def Let_def split: if_splits option.splits)
  from parse_frac_length [OF f] parse_exp_length [OF e] l0 l1 show ?thesis by simp
qed

lemma parse_lengths:
  "parse_value n inp = Inr (v, r) \<Longrightarrow> length r \<le> length inp"
  "parse_elements n inp = Inr (vs, r) \<Longrightarrow> length r \<le> length inp"
  "parse_members n inp = Inr (ms, r) \<Longrightarrow> length r \<le> length inp"
proof (induction n inp and n inp and n inp arbitrary: v r and vs r and ms r
    rule: parse_value_parse_elements_parse_members.induct)
  case (1 inp)
  then show ?case by simp
next
  case (2 n inp)
  from 2(3) obtain c cs where w: "skip_ws inp = c # cs"
    by (cases "skip_ws inp") simp_all
  note lc = skip_ws_Cons_length [OF w]
  consider (obj) "c = chr16 CHR ''{''"
    | (arr) "c \<noteq> chr16 CHR ''{''" "c = chr16 CHR ''[''"
    | (strg) "c \<noteq> chr16 CHR ''{''" "c \<noteq> chr16 CHR ''[''" "c = chr16 CHR 0x22"
    | (num) "c \<noteq> chr16 CHR ''{''" "c \<noteq> chr16 CHR ''[''" "c \<noteq> chr16 CHR 0x22"
        "c = chr16 CHR ''-'' \<or> is_digit c"
    | (lit) "c \<noteq> chr16 CHR ''{''" "c \<noteq> chr16 CHR ''[''" "c \<noteq> chr16 CHR 0x22"
        "\<not> (c = chr16 CHR ''-'' \<or> is_digit c)"
    by blast
  then show ?case
  proof cases
    case obj
    from 2(3) w obj obtain d ds where w2: "skip_ws cs = d # ds"
      by (cases "skip_ws cs") simp_all
    note ld = skip_ws_Cons_length [OF w2]
    show ?thesis
    proof (cases "d = chr16 CHR ''}''")
      case True
      with 2(3) w obj w2 have "r = ds" by simp
      with lc ld show ?thesis by simp
    next
      case False
      with 2(3) w obj w2 obtain ms where "parse_members n (d # ds) = Inr (ms, r)"
        by (auto split: sum.splits)
      from 2(1) [OF w obj w2 False this] lc ld show ?thesis by simp
    qed
  next
    case arr
    from 2(3) w arr obtain d ds where w2: "skip_ws cs = d # ds"
      by (cases "skip_ws cs") simp_all
    note ld = skip_ws_Cons_length [OF w2]
    show ?thesis
    proof (cases "d = chr16 CHR '']''")
      case True
      with 2(3) w arr w2 have "r = ds" by simp
      with lc ld show ?thesis by simp
    next
      case False
      with 2(3) w arr w2 obtain vs where "parse_elements n (d # ds) = Inr (vs, r)"
        by (auto split: sum.splits)
      from 2(2) [OF w arr w2 False this] lc ld show ?thesis by simp
    qed
  next
    case strg
    with 2(3) w obtain s where "parse_string_chars cs = Some (s, r)"
      by (auto split: option.splits)
    from parse_string_chars_length [OF this] lc show ?thesis by simp
  next
    case num
    with 2(3) w obtain t where "parse_number (c # cs) = Some (t, r)"
      by (auto split: option.splits)
    from parse_number_length [OF this] lc show ?thesis by simp
  next
    case lit
    with 2(3) w have "parse_literal (c # cs) = Some (v, r)"
      by (auto split: option.splits)
    from parse_literal_length [OF this] lc show ?thesis by simp
  qed
next
  case (3 inp)
  then show ?case by simp
next
  case (4 n inp)
  from 4(3) obtain v r1 where v: "parse_value n inp = Inr (v, r1)"
    by (cases "parse_value n inp") auto
  note l1 = 4(1) [OF v]
  from 4(3) v obtain c cs where w: "skip_ws r1 = c # cs"
    by (cases "skip_ws r1") simp_all
  note lc = skip_ws_Cons_length [OF w]
  show ?case
  proof (cases "c = chr16 CHR '']''")
    case True
    with 4(3) v w have "r = cs" by simp
    with l1 lc show ?thesis by simp
  next
    case False
    with 4(3) v w have comma: "c = chr16 CHR '',''"
      by (auto split: if_splits)
    with 4(3) v w False obtain vs' where e: "parse_elements n cs = Inr (vs', r)"
      by (auto split: sum.splits)
    from 4(2) [OF v refl w False comma e] l1 lc show ?thesis by simp
  qed
next
  case (5 inp)
  then show ?case by simp
next
  case (6 n inp)
  from 6(3) obtain q cs where w: "skip_ws inp = q # cs"
    by (cases "skip_ws inp") simp_all
  note lq = skip_ws_Cons_length [OF w]
  from 6(3) w have q: "\<not> q \<noteq> chr16 CHR 0x22"
    by (auto split: if_splits)
  from 6(3) w q obtain k r0 where k: "parse_string_chars cs = Some (k, r0)"
    by (cases "parse_string_chars cs") auto
  note lk = parse_string_chars_length [OF k]
  from 6(3) w q k obtain c r1 where w1: "skip_ws r0 = c # r1"
    by (cases "skip_ws r0") simp_all
  note l1 = skip_ws_Cons_length [OF w1]
  from 6(3) w q k w1 have c: "\<not> c \<noteq> chr16 CHR '':''"
    by (auto split: if_splits)
  from 6(3) w q k w1 c obtain v r2 where v: "parse_value n r1 = Inr (v, r2)"
    by (cases "parse_value n r1") auto
  note l2 = 6(1) [OF w q k refl w1 c v]
  from 6(3) w q k w1 c v obtain d r3 where w3: "skip_ws r2 = d # r3"
    by (cases "skip_ws r2") simp_all
  note l3 = skip_ws_Cons_length [OF w3]
  show ?case
  proof (cases "d = chr16 CHR ''}''")
    case True
    with 6(3) w q k w1 c v w3 have "r = r3" by simp
    with lq lk l1 l2 l3 show ?thesis by simp
  next
    case False
    with 6(3) w q k w1 c v w3 have comma: "d = chr16 CHR '',''"
      by (auto split: if_splits)
    with 6(3) w q k w1 c v w3 False obtain ms' where m: "parse_members n r3 = Inr (ms', r)"
      by (auto split: sum.splits)
    from 6(2) [OF w q k refl w1 c v refl w3 False comma m] lq lk l1 l2 l3 show ?thesis by simp
  qed
qed

lemma parse_fuel:
  "parse_value n inp = Inl OutOfFuel \<Longrightarrow> n \<le> 2 * length inp"
  "parse_elements n inp = Inl OutOfFuel \<Longrightarrow> n \<le> 2 * length inp + 1"
  "parse_members n inp = Inl OutOfFuel \<Longrightarrow> n \<le> 2 * length inp + 1"
proof (induction n inp and n inp and n inp
    rule: parse_value_parse_elements_parse_members.induct)
  case (1 inp)
  show ?case by simp
next
  case (2 n inp)
  from 2(3) obtain c cs where w: "skip_ws inp = c # cs"
    by (cases "skip_ws inp") simp_all
  note lc = skip_ws_Cons_length [OF w]
  consider (obj) "c = chr16 CHR ''{''"
    | (arr) "c \<noteq> chr16 CHR ''{''" "c = chr16 CHR ''[''"
    | (other) "c \<noteq> chr16 CHR ''{''" "c \<noteq> chr16 CHR ''[''"
    by blast
  then show ?case
  proof cases
    case obj
    from 2(3) w obj obtain d ds where w2: "skip_ws cs = d # ds"
      by (cases "skip_ws cs") simp_all
    note ld = skip_ws_Cons_length [OF w2]
    from 2(3) w obj w2 have nc: "d \<noteq> chr16 CHR ''}''"
      by (auto split: if_splits)
    with 2(3) w obj w2 have "parse_members n (d # ds) = Inl OutOfFuel"
      by (auto split: sum.splits)
    from 2(1) [OF w obj w2 nc this] lc ld show ?thesis by simp
  next
    case arr
    from 2(3) w arr obtain d ds where w2: "skip_ws cs = d # ds"
      by (cases "skip_ws cs") simp_all
    note ld = skip_ws_Cons_length [OF w2]
    from 2(3) w arr w2 have nc: "d \<noteq> chr16 CHR '']''"
      by (auto split: if_splits)
    with 2(3) w arr w2 have "parse_elements n (d # ds) = Inl OutOfFuel"
      by (auto split: sum.splits)
    from 2(2) [OF w arr w2 nc this] lc ld show ?thesis by simp
  next
    case other
    with 2(3) w have False
      by (auto split: if_splits option.splits)
    then show ?thesis ..
  qed
next
  case (3 inp)
  show ?case by simp
next
  case (4 n inp)
  show ?case
  proof (cases "parse_value n inp")
    case (Inl e)
    with 4(3) have "parse_value n inp = Inl OutOfFuel" by simp
    from 4(1) [OF this] show ?thesis by simp
  next
    case (Inr p)
    then obtain v r1 where v: "parse_value n inp = Inr (v, r1)" by (cases p) simp
    note l1 = parse_lengths(1) [OF v]
    from 4(3) v obtain c cs where w: "skip_ws r1 = c # cs"
      by (cases "skip_ws r1") simp_all
    note lc = skip_ws_Cons_length [OF w]
    from 4(3) v w have nb: "c \<noteq> chr16 CHR '']''" and comma: "c = chr16 CHR '',''"
      by (auto split: if_splits)
    with 4(3) v w have "parse_elements n cs = Inl OutOfFuel"
      by (auto split: sum.splits)
    from 4(2) [OF v refl w nb comma this] l1 lc show ?thesis by simp
  qed
next
  case (5 inp)
  show ?case by simp
next
  case (6 n inp)
  from 6(3) obtain q cs where w: "skip_ws inp = q # cs"
    by (cases "skip_ws inp") simp_all
  note lq = skip_ws_Cons_length [OF w]
  from 6(3) w have q: "\<not> q \<noteq> chr16 CHR 0x22"
    by (auto split: if_splits)
  from 6(3) w q obtain k r0 where k: "parse_string_chars cs = Some (k, r0)"
    by (cases "parse_string_chars cs") auto
  note lk = parse_string_chars_length [OF k]
  from 6(3) w q k obtain c r1 where w1: "skip_ws r0 = c # r1"
    by (cases "skip_ws r0") simp_all
  note l1 = skip_ws_Cons_length [OF w1]
  from 6(3) w q k w1 have c: "\<not> c \<noteq> chr16 CHR '':''"
    by (auto split: if_splits)
  show ?case
  proof (cases "parse_value n r1")
    case (Inl e)
    with 6(3) w q k w1 c have "parse_value n r1 = Inl OutOfFuel" by simp
    from 6(1) [OF w q k refl w1 c this] lq lk l1 show ?thesis by simp
  next
    case (Inr p)
    then obtain v r2 where v: "parse_value n r1 = Inr (v, r2)" by (cases p) simp
    note l2 = parse_lengths(1) [OF v]
    from 6(3) w q k w1 c v obtain d r3 where w3: "skip_ws r2 = d # r3"
      by (cases "skip_ws r2") simp_all
    note l3 = skip_ws_Cons_length [OF w3]
    from 6(3) w q k w1 c v w3 have nb: "d \<noteq> chr16 CHR ''}''" and comma: "d = chr16 CHR '',''"
      by (auto split: if_splits)
    with 6(3) w q k w1 c v w3 have "parse_members n r3 = Inl OutOfFuel"
      by (auto split: sum.splits)
    from 6(2) [OF w q k refl w1 c v refl w3 nb comma this] lq lk l1 l2 l3 show ?thesis by simp
  qed
qed

lemma JSON_parse_total: "JSON_parse text \<noteq> Inl OutOfFuel"
proof
  assume a: "JSON_parse text = Inl OutOfFuel"
  then have "parse_value (2 * length text + 2) text = Inl OutOfFuel"
    by (auto simp: JSON_parse_def split: sum.splits if_splits)
  from parse_fuel(1) [OF this] show False by simp
qed

subsection \<open>Stored text\<close>

lemma deserialize_stringify: "deserialize (JSON_stringify bs) = Some bs"
  by (simp only: deserialize_def JSON_parse_stringify as_Bookmarks_json_of sum.case)

lemma JSON_stringify_truthy: "JSON_stringify bs \<noteq> []"
  by (simp add: JSON_stringify_def)

lemma loadBookmarks_stringify:
  "storage s (str ''bookmarks'') = Some (JSON_stringify bs) \<Longrightarrow>
   loadBookmarks (Resolved u) s = Some (s\<lparr>bookmarks := bs\<rparr>)"
  by (simp add: loadBookmarks_def JSON_stringify_truthy JSON_parse_stringify as_Bookmarks_json_of
      del: as_Bookmarks.simps)

section \<open>Decimal identifiers\<close>

lemma unat_digit: "d < 10 \<Longrightarrow> unat (of_nat (48 + d) :: 16 word) = 48 + d"
  by (simp add: unat_of_nat del: of_nat_add)

lemma decimal_value_digits10: "decimal_value (digits10 n) = n"
proof (induction n rule: digits10.induct)
  case (1 n)
  show ?case
  proof (cases "n < 10")
    case True
    then show ?thesis
      by (subst digits10.simps) (simp add: decimal_value_def unat_digit del: of_nat_add)
  next
    case False
    with 1 have ih: "decimal_value (digits10 (n div 10)) = n div 10" by simp
    have d: "unat (of_nat (48 + n mod 10) :: 16 word) = 48 + n mod 10"
      by (rule unat_digit) simp
    have "decimal_value (digits10 n) = 10 * decimal_value (digits10 (n div 10)) + (unat (of_nat (48 + n mod 10) :: 16 word) - 48)"
      using False by (subst digits10.simps) (simp add: decimal_value_def del: of_nat_add digits10.simps)
    then show ?thesis
      unfolding ih d by simp
  qed
qed

lemma digits10_inj: "digits10 n = digits10 m \<Longrightarrow> n = m"
  by (metis decimal_value_digits10)

lemma digits10_digits: "d \<in> set (digits10 n) \<Longrightarrow> 48 \<le> unat d \<and> unat d \<le> 57"
proof (induction n rule: digits10.induct)
  case (1 n)
  show ?case
  proof (cases "n < 10")
    case True
    with 1(2) have "d = of_nat (48 + n)"
      by (subst (asm) digits10.simps) (simp del: of_nat_add)
    with True show ?thesis by (simp add: unat_digit del: of_nat_add)
  next
    case False
    with 1(2) have "d \<in> set (digits10 (n div 10)) \<or> d = of_nat (48 + n mod 10)"
      by (subst (asm) digits10.simps) (auto simp del: of_nat_add digits10.simps)
    then show ?thesis
    proof
      assume "d \<in> set (digits10 (n div 10))"
      with 1(1) False show ?thesis by simp
    next
      assume "d = of_nat (48 + n mod 10)"
      then show ?thesis by (simp add: unat_digit del: of_nat_add)
    qed
  qed
qed

lemma digits10_no_minus: "digits10 n \<noteq> chr16 CHR ''-'' # ds"
proof
  assume "digits10 n = chr16 CHR ''-'' # ds"
  then have "chr16 CHR ''-'' \<in> set (digits10 n)" by simp
  from digits10_digits [OF this] show False by simp
qed

lemma Number_toString_inj: "Number_toString n = Number_toString m \<Longrightarrow> n = m"
proof -
  assume eq: "Number_toString n = Number_toString m"
  consider "n < 0" "m < 0" | "n < 0" "\<not> m < 0" | "\<not> n < 0" "m < 0" | "\<not> n < 0" "\<not> m < 0"
    by blast
  then show ?thesis
  proof cases
    case 1
    with eq have "nat (- n) = nat (- m)" by (simp add: Number_toString_def digits10_inj)
    with 1 show ?thesis by simp
  next
    case 2
    with eq have "chr16 CHR ''-'' # digits10 (nat (- n)) = digits10 (nat m)"
      by (simp only: Number_toString_def if_True if_False)
    then show ?thesis using digits10_no_minus [of "nat m" "digits10 (nat (- n))"] by simp
  next
    case 3
    with eq have "digits10 (nat n) = chr16 CHR ''-'' # digits10 (nat (- m))"
      by (simp only: Number_toString_def if_True if_False)
    then show ?thesis using digits10_no_minus [of "nat n" "digits10 (nat (- m))"] by simp
  next
    case 4
    with eq have "nat n = nat m" by (simp add: Number_toString_def digits10_inj)
    with 4 show ?thesis by simp
  qed
qed


section \<open>The handlers\<close>

subsection \<open>Saving a note\<close>

lemma handleSaveNote_resolved:
  "currentNote s \<noteq> [] \<Longrightarrow> context s = Some c \<Longrightarrow>
   handleSaveNote now (Resolved u) s =
     s\<lparr>bookmarks := \<lparr>id' = Number_toString now, note = currentNote s,
                       app = app' c, timestamp = timestamp' c\<rparr> # bookmarks s,
       storage := (storage s)(str ''bookmarks'' \<mapsto>
          JSON_stringify (\<lparr>id' = Number_toString now, note = currentNote s,
                       app = app' c, timestamp = timestamp' c\<rparr> # bookmarks s)),
       currentNote := [], context := None, modalVisible := False\<rparr>"
  by (simp add: handleSaveNote_def Let_def)

lemma handleSaveNote_rejected:
  "currentNote s \<noteq> [] \<Longrightarrow> context s = Some c \<Longrightarrow>
   handleSaveNote now Rejected s =
     s\<lparr>bookmarks := \<lparr>id' = Number_toString now, note = currentNote s,
                       app = app' c, timestamp = timestamp' c\<rparr> # bookmarks s,
       effects := effects s @ [console_error ''Failed to save bookmark.'',
                           Alert_alert ''Error'' ''Could not save the bookmark.'']\<rparr>"
  by (simp add: handleSaveNote_def emit_def Let_def)

lemma handleSaveNote_bookmarks:
  "currentNote s \<noteq> [] \<Longrightarrow> context s = Some c \<Longrightarrow>
   bookmarks (handleSaveNote now written s) =
     \<lparr>id' = Number_toString now, note = currentNote s,
      app = app' c, timestamp = timestamp' c\<rparr> # bookmarks s"
  by (cases written) (simp_all add: handleSaveNote_resolved handleSaveNote_rejected)

lemma persisted_after_save:
  "currentNote s \<noteq> [] \<Longrightarrow> context s = Some c \<Longrightarrow>
   persisted (handleSaveNote now (Resolved u) s) = Some (bookmarks (handleSaveNote now (Resolved u) s))"
  by (simp add: handleSaveNote_resolved persisted_def deserialize_stringify)



subsection \<open>Effects\<close>

lemma effects_emit: "effects (emit es s) = effects s @ es"
  by (simp add: emit_def)

lemma issued_requestPermission:
  "issued s (requestPermission answer s) =
     (case answer of
        Resolved granted \<Rightarrow>
          if granted then [Native requestOverlayPermission]
          else [Native requestOverlayPermission,
                Alert_alert ''Permission Denied''
                  ''The floating button requires 'Draw over other apps' permission. Please grant it from the settings.'']
      | Rejected \<Rightarrow> [Native requestOverlayPermission, console_error ''Failed to request permission''])"
  by (simp add: issued_def requestPermission_def emit_def Let_def split: promise.split)

lemma effects_requestPermission:
  "effects (requestPermission answer s) = effects s @ issued s (requestPermission answer s)"
  by (simp add: issued_def requestPermission_def emit_def Let_def split: promise.split)

lemma effects_step: "effects (step L s e) = effects s @ issued s (step L s e)"
proof (cases e)
  case (SaveNote now written)
  then show ?thesis
    by (cases written; cases "context s")
       (simp_all add: issued_def handleSaveNote_def emit_def Let_def)
next
  case (ToggleService answer)
  then show ?thesis
    using effects_requestPermission [of answer s]
    by (simp add: toggleService_def) (simp add: issued_def emit_def)
next
  case (RequestPermission answer)
  then show ?thesis by (simp add: effects_requestPermission)
qed (simp_all add: issued_def onFloatingButtonPress_def emit_def split: promise.split)

lemma start_in_issued_step:
  "Native startFloatingWidgetService \<in> set (issued s (step L s e)) \<Longrightarrow> hasPermission s"
proof (cases e)
  case (SaveNote now written)
  assume "Native startFloatingWidgetService \<in> set (issued s (step L s e))"
  with SaveNote show ?thesis
    by (cases written; cases "context s")
       (simp_all add: issued_def handleSaveNote_def emit_def Let_def split: if_splits)
next
  case (ToggleService answer)
  assume "Native startFloatingWidgetService \<in> set (issued s (step L s e))"
  with ToggleService show ?thesis
    by (cases "isServiceRunning s"; cases "hasPermission s")
       (simp_all add: toggleService_def issued_requestPermission split: promise.splits if_splits,
        simp_all add: issued_def emit_def)
next
  case (RequestPermission answer)
  assume "Native startFloatingWidgetService \<in> set (issued s (step L s e))"
  with RequestPermission show ?thesis
    by (simp add: issued_requestPermission split: promise.splits if_splits)
next
  case (FloatingButtonPress fg date)
  assume "Native startFloatingWidgetService \<in> set (issued s (step L s e))"
  with FloatingButtonPress show ?thesis
    by (cases fg) (simp_all add: issued_def onFloatingButtonPress_def emit_def)
qed (simp_all add: issued_def)

subsection \<open>The capture context\<close>

lemma step_keeps_context: "\<not> replaces_context e \<Longrightarrow> context (step L s e) = context s"
proof (cases e)
  case (FloatingButtonPress fg date)
  assume "\<not> replaces_context e"
  with FloatingButtonPress show ?thesis
    by (cases fg) (simp_all add: onFloatingButtonPress_def emit_def)
next
  case (SaveNote now written)
  assume "\<not> replaces_context e"
  with SaveNote show ?thesis
    by (cases written; cases "context s")
       (simp_all add: handleSaveNote_def emit_def Let_def)
qed (simp_all add: toggleService_def requestPermission_def emit_def Let_def split: promise.split)

lemma run_keeps_context:
  "\<forall>e\<in>set es. \<not> replaces_context e \<Longrightarrow> context (run L s es) = context s"
proof (induction es arbitrary: s)
  case Nil
  show ?case by (simp add: run_def)
next
  case (Cons e es)
  then have "context (run L (step L s e) es) = context (step L s e)" by simp
  with Cons.prems show ?case by (simp add: run_def step_keeps_context)
qed

subsection \<open>Identifiers along a run\<close>

lemma step_other_bookmarks:
  "save_times [e] = [] \<Longrightarrow> bookmarks (step L s e) = bookmarks s"
  by (cases e)
     (simp_all add: onFloatingButtonPress_def toggleService_def requestPermission_def emit_def
        Let_def split: promise.split)

lemma step_save_bookmarks:
  "bookmarks (handleSaveNote now written s) = bookmarks s
   \<or> (\<exists>b. id' b = Number_toString now \<and> bookmarks (handleSaveNote now written s) = b # bookmarks s)"
proof (cases "currentNote s = [] \<or> context s = None")
  case True
  then show ?thesis by (auto simp: handleSaveNote_def)
next
  case False
  then obtain c where "currentNote s \<noteq> []" "context s = Some c" by auto
  then show ?thesis by (simp add: handleSaveNote_bookmarks)
qed

lemma run_Cons: "run L s (e # es) = run L (step L s e) es"
  by (simp add: run_def)

lemma ids_distinct_run:
  assumes "distinct (save_times es)"
    and "\<forall>t\<in>set (save_times es). Number_toString t \<notin> id' ` set (bookmarks s)"
    and "distinct (map id' (bookmarks s))"
  shows "distinct (map id' (bookmarks (run L s es)))"
  using assms
proof (induction es arbitrary: s)
  case Nil
  then show ?case by (simp add: run_def)
next
  case (Cons e es)
  show ?case
  proof (cases "\<exists>now written. e = SaveNote now written")
    case False
    then have st: "save_times (e # es) = save_times es" by (cases e) simp_all
    from False have "save_times [e] = []" by (cases e) simp_all
    then have b: "bookmarks (step L s e) = bookmarks s" by (rule step_other_bookmarks)
    show ?thesis
      unfolding run_Cons
      using Cons.prems unfolding st
      by (intro Cons.IH) (simp_all add: b)
  next
    case True
    then obtain now written where e: "e = SaveNote now written" by blast
    have d: "distinct (save_times es)" and n: "now \<notin> set (save_times es)"
      using Cons.prems(1) by (simp_all add: e)
    have fresh: "Number_toString now \<notin> id' ` set (bookmarks s)"
      using Cons.prems(2) by (simp add: e)
    have later: "\<forall>t\<in>set (save_times es). Number_toString t \<notin> id' ` set (bookmarks s)"
      using Cons.prems(2) by (simp add: e)
    have apart: "\<forall>t\<in>set (save_times es). Number_toString t \<noteq> Number_toString now"
      using n Number_toString_inj by blast
    from step_save_bookmarks [of now written s]
    have inv: "distinct (map id' (bookmarks (step L s e)))
        \<and> (\<forall>t\<in>set (save_times es). Number_toString t \<notin> id' ` set (bookmarks (step L s e)))"
    proof
      assume "bookmarks (handleSaveNote now written s) = bookmarks s"
      then show ?thesis using Cons.prems(3) later by (simp add: e)
    next
      assume "\<exists>b. id' b = Number_toString now \<and> bookmarks (handleSaveNote now written s) = b # bookmarks s"
      then obtain b where b: "id' b = Number_toString now"
          "bookmarks (handleSaveNote now written s) = b # bookmarks s" by blast
      show ?thesis
        using Cons.prems(3) later apart fresh by (simp add: e b)
    qed
    show ?thesis
      unfolding run_Cons
      using d inv by (intro Cons.IH) simp_all
  qed
qed

subsection \<open>The button press\<close>

lemma onFloatingButtonPress_rejected:
  "onFloatingButtonPress L Rejected date s =
     s\<lparr>effects := effects s @
        [Native getForegroundApp, console_error ''Failed to get context'',
         Alert_alert ''Error''
           ''Could not get current app info. You may need to grant Usage Access permission manually in your phone's settings.'']\<rparr>"
  by (simp add: onFloatingButtonPress_def emit_def)

subsection \<open>The concrete states\<close>

lemma bookmarks_initial: "bookmarks (initial st) = []"
  by (simp add: initial_def)

lemma run_eval:
  "run L s [] = s"
  "run L s (e # es) = run L (step L s e) es"
  by (simp_all add: run_def)

lemma example_session_ids:
  "map id' (bookmarks (run example_locale (initial Map.empty) example_session)) =
     [Number_toString 1730538736000, Number_toString 1730538735000, Number_toString 1730538725000]"
  by (simp add: example_session_def run_eval initial_def onFloatingButtonPress_def emit_def
      handleSaveNote_def toggleService_def requestPermission_def Let_def str_def
      del: digits10.simps)

lemma example_typed_fields:
  "currentNote example_typed = str ''read later''"
  "context example_typed =
     Some \<lparr>app' = str ''com.android.chrome'', timestamp' = example_locale 1730538720000\<rparr>"
  "bookmarks example_typed = []"
  "storage example_typed = Map.empty"
  by (simp_all add: example_pressed_def example_typed_def initial_def onFloatingButtonPress_def emit_def)

lemma example_typed_note: "currentNote example_typed \<noteq> []"
  by (simp add: example_typed_fields str_def)

lemma example_saved_fields:
  "bookmarks example_saved =
     [\<lparr>id' = Number_toString 1730538725000, note = str ''read later'',
       app = str ''com.android.chrome'', timestamp = example_locale 1730538720000\<rparr>]"
  "persisted example_saved = Some (bookmarks example_saved)"
  "currentNote example_saved = []"
  "context example_saved = None"
proof -
  note r = handleSaveNote_resolved [OF example_typed_note example_typed_fields(2), of 1730538725000 "()"]
  show "bookmarks example_saved =
     [\<lparr>id' = Number_toString 1730538725000, note = str ''read later'',
       app = str ''com.android.chrome'', timestamp = example_locale 1730538720000\<rparr>]"
    unfolding example_saved_def r by (simp add: example_typed_fields)
  show "persisted example_saved = Some (bookmarks example_saved)"
    unfolding example_saved_def
    by (rule persisted_after_save [OF example_typed_note example_typed_fields(2)])
  show "currentNote example_saved = []" "context example_saved = None"
    unfolding example_saved_def r by simp_all
qed

lemma example_typed_again_fields:
  "currentNote example_typed_again = str ''check this''"
  "context example_typed_again =
     Some \<lparr>app' = str ''com.android.settings'', timestamp' = example_locale 1730538730000\<rparr>"
  "bookmarks example_typed_again = bookmarks example_saved"
  "persisted example_typed_again = persisted example_saved"
  by (simp_all add: example_typed_again_def run_def onFloatingButtonPress_def emit_def persisted_def)

lemma example_typed_again_note: "currentNote example_typed_again \<noteq> []"
  by (simp add: example_typed_again_fields str_def)

subsection \<open>The load on mount and the storage\<close>

lemma loadBookmarks_as_continuation:
  "loadBookmarks got s =
     loadBookmarks_after_getItem
       (case got of Rejected \<Rightarrow> Rejected | Resolved u \<Rightarrow> Resolved (storage s (str ''bookmarks''))) s"
  by (simp add: loadBookmarks_def loadBookmarks_after_getItem_def split: promise.split option.split)






section \<open>The claims\<close>

text \<open>
  Claim C1: after every mutation of the bookmark list the list in memory equals the
  list persisted under the key \<^verbatim>\<open>bookmarks\<close>, also when the write fails. The
  statement evaluates the handler where the write is rejected: before the save the
  two lists agree; the handler has already put the new bookmark in front of the list
  in memory, the storage still holds the old list, and the two differ. With a write
  that resolves they agree again (\<open>persisted_after_save\<close>).
\<close>

theorem rejected_write_list_ahead_of_storage:
  "persisted example_typed_again = Some (bookmarks example_typed_again)
   \<and> bookmarks (handleSaveNote 1730538735000 Rejected example_typed_again) =
       \<lparr>id' = Number_toString 1730538735000, note = str ''check this'',
        app = str ''com.android.settings'', timestamp = example_locale 1730538730000\<rparr>
       # bookmarks example_typed_again
   \<and> persisted (handleSaveNote 1730538735000 Rejected example_typed_again) =
       Some (bookmarks example_typed_again)
   \<and> persisted (handleSaveNote 1730538735000 Rejected example_typed_again) \<noteq>
       Some (bookmarks (handleSaveNote 1730538735000 Rejected example_typed_again))"
proof -
  note r = handleSaveNote_rejected [OF example_typed_again_note example_typed_again_fields(2), of 1730538735000]
  have a: "persisted example_typed_again = Some (bookmarks example_typed_again)"
    by (simp add: example_typed_again_fields example_saved_fields(2))
  have b: "persisted (handleSaveNote 1730538735000 Rejected example_typed_again) = persisted example_typed_again"
    unfolding r by (simp add: persisted_def)
  have c: "bookmarks (handleSaveNote 1730538735000 Rejected example_typed_again) =
       \<lparr>id' = Number_toString 1730538735000, note = str ''check this'',
        app = str ''com.android.settings'', timestamp = example_locale 1730538730000\<rparr>
       # bookmarks example_typed_again"
    unfolding r by (simp add: example_typed_again_fields)
  show ?thesis
    unfolding b c a by simp
qed

text \<open>
  Claim C2: a failed operation shows an alert and leaves the state as it was. For the
  button press this holds (\<open>onFloatingButtonPress_rejected\<close>). For the save it does
  not: the statement evaluates the handler on a rejected write, where the alert is
  shown, the note, the context, the dialog and the storage are as before, and the
  list in memory has the new bookmark.
\<close>

theorem rejected_write_keeps_new_bookmark:
  "handleSaveNote 1730538725000 Rejected example_typed =
     example_typed
       \<lparr>bookmarks :=
          [\<lparr>id' = Number_toString 1730538725000, note = str ''read later'',
            app = str ''com.android.chrome'', timestamp = example_locale 1730538720000\<rparr>],
        effects := effects example_typed @
          [console_error ''Failed to save bookmark.'',
           Alert_alert ''Error'' ''Could not save the bookmark.'']\<rparr>
   \<and> bookmarks example_typed = []
   \<and> bookmarks (handleSaveNote 1730538725000 Rejected example_typed) \<noteq> bookmarks example_typed"
proof -
  note r = handleSaveNote_rejected [OF example_typed_note example_typed_fields(2), of 1730538725000]
  show ?thesis
    unfolding r by (simp add: example_typed_fields)
qed

text \<open>
  Claim C3: the identifiers of the saved bookmarks are pairwise different. The
  identifier is the decimal rendering of the clock reading \<^verbatim>\<open>Date.now()\<close> at
  the save and nothing else makes it unique. In the run below the clock is set back
  between two saves and both read the same millisecond: the two bookmarks, with
  different notes, carry the same identifier.
\<close>

theorem same_clock_reading_same_id:
  "map id' (bookmarks (run example_locale (initial Map.empty) example_clock_set_back)) =
     [str ''1730538725000'', str ''1730538725000'']
   \<and> map note (bookmarks (run example_locale (initial Map.empty) example_clock_set_back)) =
     [str ''check this'', str ''read later'']
   \<and> \<not> distinct (map id' (bookmarks (run example_locale (initial Map.empty) example_clock_set_back)))"
proof -
  have n: "Number_toString 1730538725000 = str ''1730538725000''"
    by (simp add: Number_toString_def str_def)
  have "bookmarks (run example_locale (initial Map.empty) example_clock_set_back) =
     [\<lparr>id' = Number_toString 1730538725000, note = str ''check this'',
       app = str ''com.android.settings'', timestamp = example_locale 1730538722000\<rparr>,
      \<lparr>id' = Number_toString 1730538725000, note = str ''read later'',
       app = str ''com.android.chrome'', timestamp = example_locale 1730538720000\<rparr>]"
    by (simp add: example_clock_set_back_def run_eval initial_def onFloatingButtonPress_def emit_def
      handleSaveNote_def Let_def str_def del: digits10.simps)
  then show ?thesis by (simp add: n)
qed

text \<open>
  Claim C3, as amended: when the clock readings of the saves of a run are pairwise
  different, and the identifiers already in the list are pairwise different and are
  not the rendering of one of these readings, the identifiers after the run are
  pairwise different. The rendering of a reading is injective
  (\<open>Number_toString_inj\<close>).
\<close>

theorem ids_distinct_for_distinct_clock_readings:
  assumes "distinct (save_times es)"
    and "Number_toString ` set (save_times es) \<inter> id' ` set (bookmarks s) = {}"
    and "distinct (map id' (bookmarks s))"
  shows "distinct (map id' (bookmarks (run L s es)))"
  using assms(1) _ assms(3)
proof (rule ids_distinct_run)
  show "\<forall>t\<in>set (save_times es). Number_toString t \<notin> id' ` set (bookmarks s)"
    using assms(2) by blast
qed

theorem ids_distinct_witness:
  "distinct (save_times example_session)
   \<and> distinct (map id' (bookmarks (run example_locale (initial Map.empty) example_session)))
   \<and> length (bookmarks (run example_locale (initial Map.empty) example_session)) = 3"
proof -
  have a: "distinct (save_times example_session)"
    by (simp add: example_session_def)
  have "distinct (map id' (bookmarks (run example_locale (initial Map.empty) example_session)))"
    by (rule ids_distinct_for_distinct_clock_readings [OF a]) (simp_all add: bookmarks_initial)
  moreover have "length (map id' (bookmarks (run example_locale (initial Map.empty) example_session))) = 3"
    unfolding example_session_ids by simp
  ultimately show ?thesis using a by simp
qed

text \<open>
  Claim C4: a save puts the new bookmark in front of the prior bookmarks, which keep
  their order; this is the list in memory whatever the outcome of the write, and the
  list persisted when the write resolves.
\<close>

theorem save_prepends:
  assumes "currentNote s \<noteq> []" and "context s = Some c"
  shows "bookmarks (handleSaveNote now written s) =
           \<lparr>id' = Number_toString now, note = currentNote s,
            app = app' c, timestamp = timestamp' c\<rparr> # bookmarks s
       \<and> persisted (handleSaveNote now (Resolved u) s) =
           Some (\<lparr>id' = Number_toString now, note = currentNote s,
                  app = app' c, timestamp = timestamp' c\<rparr> # bookmarks s)"
  using assms persisted_after_save [OF assms, of now u]
  by (simp add: handleSaveNote_bookmarks)

theorem save_prepends_witness:
  "bookmarks (handleSaveNote 1730538735000 Rejected example_typed_again) =
     [\<lparr>id' = Number_toString 1730538735000, note = str ''check this'',
       app = str ''com.android.settings'', timestamp = example_locale 1730538730000\<rparr>,
      \<lparr>id' = Number_toString 1730538725000, note = str ''read later'',
       app = str ''com.android.chrome'', timestamp = example_locale 1730538720000\<rparr>]
   \<and> persisted (handleSaveNote 1730538735000 (Resolved ()) example_typed_again) =
     Some [\<lparr>id' = Number_toString 1730538735000, note = str ''check this'',
       app = str ''com.android.settings'', timestamp = example_locale 1730538730000\<rparr>,
      \<lparr>id' = Number_toString 1730538725000, note = str ''read later'',
       app = str ''com.android.chrome'', timestamp = example_locale 1730538720000\<rparr>]"
  using save_prepends [OF example_typed_again_note example_typed_again_fields(2), of 1730538735000 Rejected "()"]
  by (simp add: example_typed_again_fields example_saved_fields)

text \<open>
  Claim C5: with an empty note the save handler returns at once: no bookmark is
  created and the state, the list in memory and the storage included, is unchanged.
\<close>

theorem save_empty_note_noop: "currentNote s = [] \<Longrightarrow> handleSaveNote now written s = s"
  by (simp add: handleSaveNote_def)

theorem save_empty_note_noop_witness:
  "currentNote example_pressed = []
   \<and> context example_pressed \<noteq> None
   \<and> handleSaveNote 1730538725000 (Resolved ()) example_pressed = example_pressed"
proof -
  have e: "currentNote example_pressed = []"
    by (simp add: example_pressed_def initial_def onFloatingButtonPress_def emit_def)
  have c: "context example_pressed \<noteq> None"
    by (simp add: example_pressed_def initial_def onFloatingButtonPress_def emit_def)
  from e c save_empty_note_noop [OF e, of 1730538725000 "Resolved ()"] show ?thesis by simp
qed




text \<open>
  Claim C7: persistence round-trips. Reading back the text written for a list of
  bookmarks gives that list, for every list; a save whose write resolves stores the
  text of the whole list in memory under the key \<^verbatim>\<open>bookmarks\<close> and under no
  other key; and the load on mount over that storage puts the same list into the
  initial state.
\<close>

theorem persistence_round_trip:
  assumes "currentNote s \<noteq> []" and "context s = Some c"
    and "s' = handleSaveNote now (Resolved u) s"
  shows "deserialize (JSON_stringify bs) = Some bs
       \<and> storage s' = (storage s)(str ''bookmarks'' \<mapsto> JSON_stringify (bookmarks s'))
       \<and> loadBookmarks (Resolved u') (initial (storage s')) =
           Some ((initial (storage s'))\<lparr>bookmarks := bookmarks s'\<rparr>)"
proof -
  have st: "storage s' = (storage s)(str ''bookmarks'' \<mapsto> JSON_stringify (bookmarks s'))"
    unfolding assms(3) handleSaveNote_resolved [OF assms(1,2)] by simp
  then have "storage (initial (storage s')) (str ''bookmarks'') = Some (JSON_stringify (bookmarks s'))"
    by (simp add: initial_def)
  then have "loadBookmarks (Resolved u') (initial (storage s')) =
           Some ((initial (storage s'))\<lparr>bookmarks := bookmarks s'\<rparr>)"
    by (rule loadBookmarks_stringify)
  with st show ?thesis by (simp add: deserialize_stringify)
qed

theorem persistence_round_trip_witness:
  "currentNote example_typed \<noteq> []
   \<and> storage example_saved (str ''bookmarks'') = Some (JSON_stringify (bookmarks example_saved))
   \<and> loadBookmarks (Resolved ()) (initial (storage example_saved)) =
       Some ((initial (storage example_saved))
         \<lparr>bookmarks :=
            [\<lparr>id' = Number_toString 1730538725000, note = str ''read later'',
              app = str ''com.android.chrome'', timestamp = example_locale 1730538720000\<rparr>]\<rparr>)"
proof -
  note r = persistence_round_trip [OF example_typed_note example_typed_fields(2) example_saved_def, of "[]" "()"]
  from r have "storage example_saved (str ''bookmarks'') = Some (JSON_stringify (bookmarks example_saved))"
    by simp
  moreover from r have "loadBookmarks (Resolved ()) (initial (storage example_saved)) =
       Some ((initial (storage example_saved))\<lparr>bookmarks := bookmarks example_saved\<rparr>)"
    by blast
  ultimately show ?thesis
    using example_typed_note unfolding example_saved_fields(1) by blast
qed

text \<open>
  Claim C8: the application name and the timestamp of a bookmark are those of the
  button press. After a press whose query resolved with \<open>a\<close> at the time value
  \<open>date\<close>, and any events in between that neither capture anew nor complete a
  save, a save with a note stores the name \<open>a\<close> and the formatting of \<open>date\<close>,
  whatever the clock reads at the save.
\<close>

theorem capture_at_event_time:
  assumes "\<forall>e\<in>set es. \<not> replaces_context e"
    and "s' = run L (step L s (FloatingButtonPress (Resolved a) date)) es"
    and "currentNote s' \<noteq> []"
  shows "bookmarks (handleSaveNote now written s') =
           \<lparr>id' = Number_toString now, note = currentNote s', app = a, timestamp = L date\<rparr>
           # bookmarks s'"
proof -
  have "context s' = context (step L s (FloatingButtonPress (Resolved a) date))"
    unfolding assms(2) using assms(1) by (rule run_keeps_context)
  then have "context s' = Some \<lparr>app' = a, timestamp' = L date\<rparr>"
    by (simp add: onFloatingButtonPress_def emit_def)
  with assms(3) show ?thesis by (simp add: handleSaveNote_bookmarks)
qed

theorem capture_at_event_time_witness:
  "\<not> list_ex replaces_context example_delay
   \<and> bookmarks (handleSaveNote 1730538725000 (Resolved ()) example_delayed) =
       [\<lparr>id' = Number_toString 1730538725000, note = str ''read later'',
         app = str ''com.android.chrome'', timestamp = example_locale 1730538720000\<rparr>]"
proof -
  have d: "\<forall>e\<in>set example_delay. \<not> replaces_context e"
    by (simp add: example_delay_def)
  have n: "currentNote example_delayed = str ''read later''"
    by (simp add: example_delayed_def example_delay_def run_eval onFloatingButtonPress_def
        requestPermission_def emit_def Let_def)
  then have n': "currentNote example_delayed \<noteq> []" by (simp add: str_def)
  have b: "bookmarks example_delayed = []"
    by (simp add: example_delayed_def example_pressed_def example_delay_def run_eval
        onFloatingButtonPress_def requestPermission_def emit_def Let_def initial_def)
  have "bookmarks (handleSaveNote 1730538725000 (Resolved ()) example_delayed) =
       \<lparr>id' = Number_toString 1730538725000, note = currentNote example_delayed,
         app = str ''com.android.chrome'', timestamp = example_locale 1730538720000\<rparr>
       # bookmarks example_delayed"
    by (rule capture_at_event_time [OF d example_delayed_def [unfolded example_pressed_def] n'])
  then show ?thesis
    unfolding n b using d by (simp add: list_ex_iff)
qed

text \<open>
  Claim C9: the service is started only with the permission. Every handler only adds
  to the effects; a start of the service among the effects a handler adds implies
  that the permission flag was set when the handler ran; and \<^verbatim>\<open>toggleService\<close>
  with the service stopped and the flag unset is the permission request: its first
  effect is the request, it issues no start and leaves the service stopped.
\<close>

theorem start_only_with_permission:
  "prefix (effects s) (effects (step L s e))
   \<and> (Native startFloatingWidgetService \<in> set (issued s (step L s e)) \<longrightarrow> hasPermission s)
   \<and> (\<not> isServiceRunning s \<and> \<not> hasPermission s \<longrightarrow>
        toggleService answer s = requestPermission answer s
        \<and> hd (issued s (toggleService answer s)) = Native requestOverlayPermission
        \<and> Native startFloatingWidgetService \<notin> set (issued s (toggleService answer s))
        \<and> \<not> isServiceRunning (toggleService answer s))"
proof (intro conjI impI)
  show "prefix (effects s) (effects (step L s e))"
    using effects_step [of L s e] by (metis prefixI)
next
  assume "Native startFloatingWidgetService \<in> set (issued s (step L s e))"
  then show "hasPermission s" by (rule start_in_issued_step)
next
  assume a: "\<not> isServiceRunning s \<and> \<not> hasPermission s"
  then show t: "toggleService answer s = requestPermission answer s"
    by (simp add: toggleService_def)
  show "hd (issued s (toggleService answer s)) = Native requestOverlayPermission"
    unfolding t by (simp add: issued_requestPermission split: promise.split)
  show "Native startFloatingWidgetService \<notin> set (issued s (toggleService answer s))"
    unfolding t by (simp add: issued_requestPermission split: promise.split)
  from a show "\<not> isServiceRunning (toggleService answer s)"
    unfolding t by (simp add: requestPermission_def emit_def Let_def split: promise.split)
qed

theorem start_only_with_permission_witness:
  "hasPermission example_permitted
   \<and> issued example_permitted (step example_locale example_permitted (ToggleService Rejected)) =
       [Native startFloatingWidgetService]
   \<and> \<not> hasPermission (initial Map.empty)
   \<and> issued (initial Map.empty) (toggleService (Resolved False) (initial Map.empty)) =
       [Native requestOverlayPermission,
        Alert_alert ''Permission Denied''
          ''The floating button requires 'Draw over other apps' permission. Please grant it from the settings.'']
   \<and> \<not> isServiceRunning (toggleService (Resolved False) (initial Map.empty))"
proof -
  have p: "hasPermission example_permitted" "\<not> isServiceRunning example_permitted"
    by (simp_all add: example_permitted_def checkStatus_def emit_def initial_def Let_def)
  have i: "issued example_permitted (step example_locale example_permitted (ToggleService Rejected)) =
       [Native startFloatingWidgetService]"
    using p by (simp add: toggleService_def issued_def emit_def)
  have q: "\<not> isServiceRunning (initial Map.empty) \<and> \<not> hasPermission (initial Map.empty)"
    by (simp add: initial_def)
  note c = start_only_with_permission [of "initial Map.empty" example_locale CloseModal "Resolved False"]
  from c q have t: "toggleService (Resolved False) (initial Map.empty) =
      requestPermission (Resolved False) (initial Map.empty)"
    by blast
  from c q have r: "\<not> isServiceRunning (toggleService (Resolved False) (initial Map.empty))"
    by blast
  have j: "issued (initial Map.empty) (toggleService (Resolved False) (initial Map.empty)) =
       [Native requestOverlayPermission,
        Alert_alert ''Permission Denied''
          ''The floating button requires 'Draw over other apps' permission. Please grant it from the settings.'']"
    unfolding t by (simp add: issued_requestPermission)
  from p(1) i q j r show ?thesis by blast
qed

text \<open>
  Claim C10: without a capture context the save handler returns at once and the
  state, with the list, the storage, the note and the dialog, is unchanged.
\<close>

theorem save_without_context_noop: "context s = None \<Longrightarrow> handleSaveNote now written s = s"
  by (simp add: handleSaveNote_def)

theorem save_without_context_noop_witness:
  "context example_saved = None
   \<and> currentNote (step example_locale example_saved (ChangeText (str ''again''))) \<noteq> []
   \<and> handleSaveNote 1730538740000 (Resolved ())
        (step example_locale example_saved (ChangeText (str ''again''))) =
       step example_locale example_saved (ChangeText (str ''again''))"
proof -
  have c: "context (step example_locale example_saved (ChangeText (str ''again''))) = None"
    by (simp add: example_saved_fields)
  have n: "currentNote (step example_locale example_saved (ChangeText (str ''again''))) \<noteq> []"
    by (simp add: str_def)
  from n save_without_context_noop [OF c, of 1730538740000 "Resolved ()"] show ?thesis
    by (simp add: example_saved_fields)
qed

end
